theory Spec2Isabelle
  imports Main "HOL-Library.Word"
begin

unbundle bit_operations_syntax

section \<open>Data model\<close>

text \<open>
  The development embeds the DRM/GBM window-system backend of the retracer:
  \<^verbatim>\<open>drm_fb_get_from_bo\<close> and \<^verbatim>\<open>drm_fb_destroy_callback\<close> (glws_drm.hpp and its
  implementation), and \<^verbatim>\<open>add_*_property\<close>, \<^verbatim>\<open>drm_atomic_commit\<close>,
  \<^verbatim>\<open>EglDrawable::show\<close> and \<^verbatim>\<open>EglDrawable::swapBuffers\<close> (the EGL/DRM drawable).
  Pointers are references into explicit memories, the calls into EGL, GBM, libdrm and
  libc are logged in a chronological trace, and what those libraries and the kernel
  answer is an explicit environment argument.
\<close>

type_synonym u16 = "16 word"
type_synonym u32 = "32 word"
type_synonym u64 = "64 word"

type_synonym bo_ref = nat \<comment> \<open>a non-NULL \<^verbatim>\<open>struct gbm_bo *\<close>\<close>
type_synonym fb_ref = nat \<comment> \<open>a non-NULL \<^verbatim>\<open>struct drm_fb *\<close>\<close>
type_synonym EGLSyncKHR = nat \<comment> \<open>0 is \<^verbatim>\<open>EGL_NO_SYNC_KHR\<close>\<close>

text \<open>\<^verbatim>\<open>struct drm_fb { struct gbm_bo *bo; uint32_t fb_id; }\<close>\<close>

record drm_fb =
  fb_bo :: bo_ref
  fb_id :: u32

text \<open>The only function ever registered as a buffer's destructor hook.\<close>

datatype destroy_cb = Drm_fb_destroy_callback

record plane_layout =
  pl_handle :: u32
  pl_stride :: u32
  pl_offset :: u32

text \<open>
  What the GBM accessors return for a buffer object, and the two fields that
  \<^verbatim>\<open>gbm_bo_set_user_data\<close> writes. \<^verbatim>\<open>gbm_bo_get_plane_count\<close> is the length of
  \<open>bo_planes\<close>.
\<close>

record gbm_bo =
  bo_width :: u32
  bo_height :: u32
  bo_format :: u32
  bo_modifier :: u64
  bo_planes :: "plane_layout list"
  bo_handle :: u32
  bo_stride :: u32
  user_data :: "fb_ref option"
  destroy_user_data :: "destroy_cb option"

type_synonym atomic_req = "(u32 \<times> u32 \<times> u64) list"
  \<comment> \<open>the items of a \<^verbatim>\<open>drmModeAtomicReq\<close>: object id, property id, value\<close>

datatype error =
    Exit int
  | Assertion_failed string
  | Undefined_behaviour string

datatype event =
    Printf string
  | Fprintf_stderr string
  | EglCreateSync int EGLSyncKHR
  | EglWaitSync EGLSyncKHR
  | EglClientWaitSync EGLSyncKHR int
  | EglDestroySync EGLSyncKHR
  | EglSwapBuffers
  | EglDupNativeFenceFD EGLSyncKHR int
  | EglWaitClient
  | EglWaitNative
  | Drawable_show
  | GbmSurfaceLockFrontBuffer "bo_ref option"
  | GbmSurfaceReleaseBuffer bo_ref
  | GbmBoSetUserData bo_ref fb_ref
  | GbmBoDestroy bo_ref
  | Calloc fb_ref
  | Free fb_ref
  | DrmModeAddFB2WithModifiers u32 u32 u32 "u32 list" "u32 list" "u32 list" "u64 list" u32 int
  | DrmModeAddFB2 u32 u32 u32 "u32 list" "u32 list" "u32 list" u32 int
  | DrmModeRmFB u32
  | DrmModeAtomicAlloc
  | DrmModeCreatePropertyBlob int
  | DrmModeAtomicCommit atomic_req u32 int
  | DrmModeAtomicFree
  | Close int
  | Poll int

text \<open>
  The program state: the static \<^verbatim>\<open>struct drm\<close> (fence fds, the three property tables as
  the linear scans read them, object ids, the chosen mode), the static \<^verbatim>\<open>struct gbm\<close>
  (whether a chain surface exists, the explicit ring), the memory holding buffer objects
  and \<^verbatim>\<open>drm_fb\<close> records, the fields of \<^verbatim>\<open>EglDrawable\<close>, the \<^verbatim>\<open>visible\<close> member it
  inherits, and the trace.
\<close>

record state =
  kms_in_fence_fd :: int
  kms_out_fence_fd :: int
  out_fence_ptr :: u64
  plane_props :: "(string \<times> u32) list"
  crtc_props :: "(string \<times> u32) list"
  connector_props :: "(string \<times> u32) list"
  plane_id :: u32
  crtc_id :: u32
  connector_id :: u32
  hdisplay :: u16
  vdisplay :: u16
  surface :: bool
  bos :: "nat \<Rightarrow> bo_ref option"
  bo_mem :: "bo_ref \<Rightarrow> gbm_bo"
  fb_mem :: "fb_ref \<rightharpoonup> drm_fb"
  next_fb :: fb_ref
  bo :: "bo_ref option"
  fb :: "fb_ref option"
  frame_count :: u32
  start_time :: int
  report_time :: int
  cur_time :: int
  ret :: int
  flags :: u32
  visible :: bool
  trace :: "event list"

text \<open>What the kernel answers to the two framebuffer-creation calls: return code and,
  on success, the id stored through \<^verbatim>\<open>&fb->fb_id\<close>.\<close>

record addfb_env =
  addfb2_with_modifiers :: "int \<times> u32"
  addfb2 :: "int \<times> u32"

text \<open>What the outside world answers during one \<^verbatim>\<open>swapBuffers\<close> call.\<close>

record frame_env =
  bind_api_ok :: bool
  kms_sync :: EGLSyncKHR
  gpu_sync :: EGLSyncKHR
  dup_fd :: int
  lock_front :: "bo_ref option"
  addfb :: addfb_env
  client_wait :: "nat \<Rightarrow> int"
  restart_time :: int
  now :: int
  poll_ret :: int
  blob :: "int \<times> u32"
  commit_ret :: int
  kernel_out_fence :: "int option"

text \<open>What \<^verbatim>\<open>show\<close> reads from outside: the extension check, whether the five entry
  points were resolved, the clock, and the value of \<^verbatim>\<open>visible\<close> after the inherited
  \<^verbatim>\<open>Drawable::show()\<close>, whose body is not part of these sources.\<close>

record show_env =
  has_native_fence_sync :: bool
  procs_available :: bool
  show_time :: int
  visible_after_base_show :: bool

datatype call = Show show_env | SwapBuffers frame_env

section \<open>Constants of the headers\<close>

definition DRM_MODE_FB_MODIFIERS :: u32 where
  "DRM_MODE_FB_MODIFIERS = 2"

definition DRM_MODE_ATOMIC_NONBLOCK :: u32 where
  "DRM_MODE_ATOMIC_NONBLOCK = 0x200"

definition DRM_MODE_ATOMIC_ALLOW_MODESET :: u32 where
  "DRM_MODE_ATOMIC_ALLOW_MODESET = 0x400"

definition EINVAL :: int where
  "EINVAL = 22"

definition EGL_CONDITION_SATISFIED_KHR :: int where
  "EGL_CONDITION_SATISFIED_KHR = 0x30F6"

definition EGL_NO_NATIVE_FENCE_FD_ANDROID :: int where
  "EGL_NO_NATIVE_FENCE_FD_ANDROID = - 1"

definition NUM_BUFFERS :: u32 where
  "NUM_BUFFERS = 2"

definition NSEC_PER_SEC :: int where
  "NSEC_PER_SEC = 1000 * (1000 * 1000)"

section \<open>The presentation handle cache\<close>

definition emit :: "event \<Rightarrow> state \<Rightarrow> state" where
  "emit e st = st\<lparr>trace := trace st @ [e]\<rparr>"

text \<open>
  The loop of \<^verbatim>\<open>drm_fb_get_from_bo\<close> over the planes: entry \<open>i\<close> of the handle, stride
  and offset arrays is read from plane \<open>i\<close>, entry \<open>i\<close> of the modifier array is a copy of
  entry 0, which holds \<^verbatim>\<open>gbm_bo_get_modifier(bo)\<close>. The arrays have four entries.
\<close>

definition plane_arrays :: "gbm_bo \<Rightarrow> u32 list \<times> u32 list \<times> u32 list \<times> u64 list" where
  "plane_arrays b =
     foldl (\<lambda>(hs, ss, os, ms) i.
              (hs[i := pl_handle (bo_planes b ! i)],
               ss[i := pl_stride (bo_planes b ! i)],
               os[i := pl_offset (bo_planes b ! i)],
               ms[i := ms ! 0]))
       ([0, 0, 0, 0], [0, 0, 0, 0], [0, 0, 0, 0], [0, 0, 0, 0][0 := bo_modifier b])
       [0..<length (bo_planes b)]"

definition set_fb_id :: "fb_ref \<Rightarrow> u32 \<Rightarrow> state \<Rightarrow> state" where
  "set_fb_id f i st =
     st\<lparr>fb_mem := (fb_mem st)(f := map_option (\<lambda>r. r\<lparr>fb_id := i\<rparr>) (fb_mem st f))\<rparr>"

definition gbm_bo_set_user_data :: "bo_ref \<Rightarrow> fb_ref \<Rightarrow> destroy_cb \<Rightarrow> state \<Rightarrow> state" where
  "gbm_bo_set_user_data b f cb st =
     emit (GbmBoSetUserData b f)
       (st\<lparr>bo_mem := (bo_mem st)
              (b := (bo_mem st b)\<lparr>user_data := Some f, destroy_user_data := Some cb\<rparr>)\<rparr>)"

text \<open>
  The uncached path of \<^verbatim>\<open>drm_fb_get_from_bo\<close>: allocate the record, build the arrays, try
  \<^verbatim>\<open>drmModeAddFB2WithModifiers\<close>, on failure warn (when the modifiers flag was set) and
  retry with \<^verbatim>\<open>drmModeAddFB2\<close> on the buffer's first handle and stride; when that fails
  too, free the record and return NULL, otherwise attach the record to the buffer. A
  buffer with more planes than the arrays hold makes the source write out of bounds.
\<close>

definition create_fb :: "addfb_env \<Rightarrow> state \<Rightarrow> bo_ref \<Rightarrow> error + (fb_ref option \<times> state)" where
  "create_fb k st b =
     (let g = bo_mem st b in
      if 4 < length (bo_planes g) then Inl (Undefined_behaviour ''plane arrays'')
      else
        let f = next_fb st;
            st1 = emit (Calloc f)
                    (st\<lparr>fb_mem := (fb_mem st)(f \<mapsto> \<lparr>fb_bo = b, fb_id = 0\<rparr>), next_fb := Suc f\<rparr>);
            (handles, strides, offsets, modifiers) = plane_arrays g;
            fl = (if modifiers ! 0 \<noteq> 0 then DRM_MODE_FB_MODIFIERS else 0);
            st2 = (if modifiers ! 0 \<noteq> 0 then emit (Printf ''Using modifier'') st1 else st1);
            (r1, id1) = addfb2_with_modifiers k;
            st3 = emit (DrmModeAddFB2WithModifiers (bo_width g) (bo_height g) (bo_format g)
                          handles strides offsets modifiers fl r1) st2;
            st4 = (if r1 = 0 then set_fb_id f id1 st3 else st3);
            (r, st7) =
              (if r1 \<noteq> 0 then
                 let st5 = (if fl \<noteq> 0 then emit (Fprintf_stderr ''Modifiers failed!'') st4 else st4);
                     (r2, id2) = addfb2 k;
                     st6 = emit (DrmModeAddFB2 (bo_width g) (bo_height g) (bo_format g)
                                   [bo_handle g, 0, 0, 0] [bo_stride g, 0, 0, 0] [0, 0, 0, 0] 0 r2) st5
                 in (r2, if r2 = 0 then set_fb_id f id2 st6 else st6)
               else (r1, st4))
        in if r \<noteq> 0 then
             Inr (None, emit (Free f)
                          ((emit (Printf ''failed to create fb'') st7)
                             \<lparr>fb_mem := (fb_mem st7)(f := None)\<rparr>))
           else Inr (Some f, gbm_bo_set_user_data b f Drm_fb_destroy_callback st7))"

definition drm_fb_get_from_bo :: "addfb_env \<Rightarrow> state \<Rightarrow> bo_ref \<Rightarrow> error + (fb_ref option \<times> state)" where
  "drm_fb_get_from_bo k st b =
     (case user_data (bo_mem st b) of
        Some f \<Rightarrow> Inr (Some f, st)
      | None \<Rightarrow> create_fb k st b)"

text \<open>\<^verbatim>\<open>drm_fb_destroy_callback(bo, data)\<close>: remove the kernel framebuffer when the record
  holds a non-zero id, then free the record.\<close>

definition drm_fb_destroy_callback :: "state \<Rightarrow> bo_ref \<Rightarrow> fb_ref option \<Rightarrow> error + state" where
  "drm_fb_destroy_callback st b data =
     (case data of
        None \<Rightarrow> Inl (Undefined_behaviour ''fb'')
      | Some f \<Rightarrow>
          (case fb_mem st f of
             None \<Rightarrow> Inl (Undefined_behaviour ''fb'')
           | Some r \<Rightarrow>
               let st1 = (if fb_id r \<noteq> 0 then emit (DrmModeRmFB (fb_id r)) st else st)
               in Inr (emit (Free f) (st1\<lparr>fb_mem := (fb_mem st1)(f := None)\<rparr>))))"

text \<open>
  \<^verbatim>\<open>gbm_bo_destroy\<close> of the GBM library, as its interface documents it: the registered
  destructor hook, if any, is called with the buffer and its user data, then the buffer
  is gone.
\<close>

definition gbm_bo_destroy :: "state \<Rightarrow> bo_ref \<Rightarrow> error + state" where
  "gbm_bo_destroy st b =
     (case (case destroy_user_data (bo_mem st b) of
              None \<Rightarrow> Inr st
            | Some Drm_fb_destroy_callback \<Rightarrow>
                drm_fb_destroy_callback st b (user_data (bo_mem st b))) of
        Inl e \<Rightarrow> Inl e
      | Inr st1 \<Rightarrow>
          Inr (emit (GbmBoDestroy b)
                 (st1\<lparr>bo_mem := (bo_mem st1)
                        (b := (bo_mem st1 b)\<lparr>user_data := None, destroy_user_data := None\<rparr>)\<rparr>)))"

text \<open>Resolving a sequence of buffers, each against its own kernel answers.\<close>

fun resolve_all :: "(bo_ref \<times> addfb_env) list \<Rightarrow> state \<Rightarrow> error + state" where
  "resolve_all [] st = Inr st"
| "resolve_all ((b, k) # rs) st =
     (case drm_fb_get_from_bo k st b of
        Inl e \<Rightarrow> Inl e
      | Inr (_, st1) \<Rightarrow> resolve_all rs st1)"

section \<open>The atomic committer\<close>

text \<open>
  The linear scan of the three \<^verbatim>\<open>add_*_property\<close> functions over a property table:
  the id of the first entry with the given name, read into an \<^verbatim>\<open>int\<close>, or the initial
  value of \<^verbatim>\<open>prop_id\<close> when no entry has that name.
\<close>

fun lookup_prop :: "(string \<times> u32) list \<Rightarrow> string \<Rightarrow> int \<Rightarrow> int" where
  "lookup_prop [] name d = d"
| "lookup_prop ((n, p) # ps) name d = (if n = name then sint p else lookup_prop ps name d)"

text \<open>
  \<^verbatim>\<open>drmModeAtomicAddProperty\<close> of libdrm refuses object id 0 and property id 0 with
  \<^verbatim>\<open>-EINVAL\<close>; otherwise it appends the item and returns the new number of items.
\<close>

definition drmModeAtomicAddProperty :: "atomic_req \<Rightarrow> u32 \<Rightarrow> u32 \<Rightarrow> u64 \<Rightarrow> int \<times> atomic_req" where
  "drmModeAtomicAddProperty req obj_id prop_id v =
     (if obj_id = 0 \<or> prop_id = 0 then (- EINVAL, req)
      else (int (length req) + 1, req @ [(obj_id, prop_id, v)]))"

definition add_crtc_property ::
  "state \<Rightarrow> atomic_req \<Rightarrow> u32 \<Rightarrow> string \<Rightarrow> u64 \<Rightarrow> int \<times> atomic_req \<times> state" where
  "add_crtc_property st req obj_id name v =
     (let prop_id = lookup_prop (crtc_props st) name (- 1) in
      if prop_id < 0 then (- EINVAL, req, emit (Printf (''no crtc property: '' @ name)) st)
      else let (r, req1) = drmModeAtomicAddProperty req obj_id (word_of_int prop_id) v
           in (r, req1, st))"

definition add_plane_property ::
  "state \<Rightarrow> atomic_req \<Rightarrow> u32 \<Rightarrow> string \<Rightarrow> u64 \<Rightarrow> int \<times> atomic_req \<times> state" where
  "add_plane_property st req obj_id name v =
     (let prop_id = lookup_prop (plane_props st) name (- 1) in
      if prop_id < 0 then (- EINVAL, req, emit (Printf (''no plane property: '' @ name)) st)
      else let (r, req1) = drmModeAtomicAddProperty req obj_id (word_of_int prop_id) v
           in (r, req1, st))"

text \<open>The connector variant starts its scan from \<^verbatim>\<open>prop_id = 0\<close>: on a lookup miss
  its own test does not fire, and \<^verbatim>\<open>drmModeAtomicAddProperty\<close> refuses the id.\<close>

definition add_connector_property ::
  "state \<Rightarrow> atomic_req \<Rightarrow> u32 \<Rightarrow> string \<Rightarrow> u64 \<Rightarrow> int \<times> atomic_req \<times> state" where
  "add_connector_property st req obj_id name v =
     (let prop_id = lookup_prop (connector_props st) name 0 in
      if prop_id < 0 then (- EINVAL, req, emit (Printf (''no connector property: '' @ name)) st)
      else let (r, req1) = drmModeAtomicAddProperty req obj_id (word_of_int prop_id) v
           in (r, req1, st))"

text \<open>
  The block of \<^verbatim>\<open>drm_atomic_commit\<close> guarded by \<^verbatim>\<open>flags & DRM_MODE_ATOMIC_ALLOW_MODESET\<close>.
  The first component is False where the source returns \<open>-1\<close>.
\<close>

definition modeset_block :: "frame_env \<Rightarrow> state \<Rightarrow> atomic_req \<Rightarrow> bool \<times> atomic_req \<times> state" where
  "modeset_block env st req =
     (let (r1, req1, st1) =
            add_connector_property st req (connector_id st) ''CRTC_ID'' (ucast (crtc_id st))
      in if r1 < 0 then (False, req1, st1)
         else
           let (rb, blob_id) = blob env;
               st2 = emit (DrmModeCreatePropertyBlob rb) st1
           in if rb \<noteq> 0 then (False, req1, st2)
              else
                let (r2, req2, st3) = add_crtc_property st2 req1 (crtc_id st2) ''MODE_ID'' (ucast blob_id)
                in if r2 < 0 then (False, req2, st3)
                   else
                     let (r3, req3, st4) = add_crtc_property st3 req2 (crtc_id st3) ''ACTIVE'' 1
                     in if r3 < 0 then (False, req3, st4) else (True, req3, st4))"

text \<open>
  The ten plane properties, added one after the other with the return values dropped.
  \<^verbatim>\<open>hdisplay << 16\<close> is computed in \<^verbatim>\<open>int\<close> and widened to 64 bits.
\<close>

definition plane_values :: "state \<Rightarrow> u32 \<Rightarrow> (string \<times> u64) list" where
  "plane_values st fbid =
     [(''FB_ID'', ucast fbid),
      (''CRTC_ID'', ucast (crtc_id st)),
      (''SRC_X'', 0),
      (''SRC_Y'', 0),
      (''SRC_W'', scast (push_bit 16 (ucast (hdisplay st) :: u32))),
      (''SRC_H'', scast (push_bit 16 (ucast (vdisplay st) :: u32))),
      (''CRTC_X'', 0),
      (''CRTC_Y'', 0),
      (''CRTC_W'', ucast (hdisplay st)),
      (''CRTC_H'', ucast (vdisplay st))]"

fun add_plane_properties ::
  "state \<Rightarrow> atomic_req \<Rightarrow> u32 \<Rightarrow> (string \<times> u64) list \<Rightarrow> atomic_req \<times> state" where
  "add_plane_properties st req obj_id [] = (req, st)"
| "add_plane_properties st req obj_id ((name, v) # nvs) =
     (let (r, req1, st1) = add_plane_property st req obj_id name v
      in add_plane_properties st1 req1 obj_id nvs)"

text \<open>
  The block guarded by \<^verbatim>\<open>drm->kms_in_fence_fd != -1\<close>. The first component tells whether
  the request now carries the address of \<^verbatim>\<open>kms_out_fence_fd\<close>.
\<close>

definition fence_block :: "state \<Rightarrow> atomic_req \<Rightarrow> bool \<times> atomic_req \<times> state" where
  "fence_block st req =
     (if kms_in_fence_fd st \<noteq> - 1 then
        let (r1, req1, st1) = add_crtc_property st req (crtc_id st) ''OUT_FENCE_PTR'' (out_fence_ptr st);
            (r2, req2, st2) =
              add_plane_property st1 req1 (plane_id st1) ''IN_FENCE_FD'' (word_of_int (kms_in_fence_fd st1))
        in (0 \<le> r1, req2, st2)
      else (False, req, st))"

text \<open>
  \<^verbatim>\<open>drmModeAtomicCommit\<close>: the kernel returns \<open>commit_ret\<close>; when the request carries the
  out-fence pointer it may store a value through it.
\<close>

definition kernel_commit :: "frame_env \<Rightarrow> bool \<Rightarrow> atomic_req \<Rightarrow> u32 \<Rightarrow> state \<Rightarrow> int \<times> state" where
  "kernel_commit env out_requested req fl st =
     (let st1 = emit (DrmModeAtomicCommit req fl (commit_ret env)) st
      in (commit_ret env,
          (case kernel_out_fence env of
             Some fd \<Rightarrow> if out_requested then st1\<lparr>kms_out_fence_fd := fd\<rparr> else st1
           | None \<Rightarrow> st1)))"

definition drm_atomic_commit :: "frame_env \<Rightarrow> u32 \<Rightarrow> u32 \<Rightarrow> state \<Rightarrow> int \<times> state" where
  "drm_atomic_commit env fbid fl st =
     (let st0 = emit DrmModeAtomicAlloc st;
          (ok, req1, st1) =
            (if fl AND DRM_MODE_ATOMIC_ALLOW_MODESET \<noteq> 0 then modeset_block env st0 []
             else (True, [], st0))
      in if \<not> ok then (- 1, st1)
         else
           let (req2, st2) = add_plane_properties st1 req1 (plane_id st1) (plane_values st1 fbid);
               (out_requested, req3, st3) = fence_block st2 req2;
               (r, st4) = kernel_commit env out_requested req3 fl st3;
               st5 = (if r = 0 \<and> kms_in_fence_fd st4 \<noteq> - 1
                      then (emit (Close (kms_in_fence_fd st4)) st4)\<lparr>kms_in_fence_fd := - 1\<rparr>
                      else st4)
           in (r, emit DrmModeAtomicFree st5))"

section \<open>The drawable\<close>

text \<open>\<^verbatim>\<open>EglDrawable::show\<close>.\<close>

definition "show" :: "show_env \<Rightarrow> state \<Rightarrow> state" where
  "show env st =
     (if visible st then st
      else if \<not> has_native_fence_sync env then
        emit (Printf ''EGL_ANDROID_native_fence_sync not available.'') st
      else if \<not> procs_available env then emit (Printf ''Extensions not available.'') st
      else
        (emit Drawable_show (emit EglWaitNative (emit EglWaitClient
           (st\<lparr>flags := flags st OR DRM_MODE_ATOMIC_ALLOW_MODESET,
                start_time := show_time env, report_time := show_time env\<rparr>))))
          \<lparr>visible := visible_after_base_show env\<rparr>)"

text \<open>Lines 388 to 401 of \<^verbatim>\<open>swapBuffers\<close>: import the previous commit's completion fence.\<close>

definition import_kms_fence :: "frame_env \<Rightarrow> state \<Rightarrow> error + (EGLSyncKHR option \<times> state)" where
  "import_kms_fence env st =
     (if kms_out_fence_fd st \<noteq> - 1 then
        let st1 = emit (EglCreateSync (kms_out_fence_fd st) (kms_sync env)) st
        in if kms_sync env = 0 then Inl (Assertion_failed ''fence'')
           else Inr (Some (kms_sync env), emit (EglWaitSync (kms_sync env)) (st1\<lparr>kms_out_fence_fd := - 1\<rparr>))
      else Inr (None, st))"

text \<open>Lines 407 to 415: restart the fps clock on the second frame, count the frame.\<close>

definition count_frame :: "frame_env \<Rightarrow> state \<Rightarrow> state" where
  "count_frame env st =
     (let st1 = (if frame_count st = 1
                 then st\<lparr>start_time := restart_time env, report_time := restart_time env\<rparr>
                 else st)
      in st1\<lparr>frame_count := frame_count st1 + 1\<rparr>)"

text \<open>Lines 422 to 435: insert the GPU fence, swap, export the fence as \<^verbatim>\<open>kms_in_fence_fd\<close>.\<close>

definition export_gpu_fence :: "frame_env \<Rightarrow> state \<Rightarrow> error + state" where
  "export_gpu_fence env st =
     (let st1 = emit (EglCreateSync EGL_NO_NATIVE_FENCE_FD_ANDROID (gpu_sync env)) st
      in if gpu_sync env = 0 then Inl (Assertion_failed ''fence'')
         else
           let st2 = (if surface st1 then emit EglSwapBuffers st1 else st1);
               st3 = emit (EglDestroySync (gpu_sync env))
                       ((emit (EglDupNativeFenceFD (gpu_sync env) (dup_fd env)) st2)
                          \<lparr>kms_in_fence_fd := dup_fd env\<rparr>)
           in if kms_in_fence_fd st3 = - 1
              then Inl (Assertion_failed ''drm->kms_in_fence_fd != -1'')
              else Inr st3)"

text \<open>Lines 437 to 441: the next buffer, from the chain surface or from the ring.\<close>

definition acquire_next :: "frame_env \<Rightarrow> state \<Rightarrow> bo_ref option \<times> state" where
  "acquire_next env st =
     (if surface st then (lock_front env, emit (GbmSurfaceLockFrontBuffer (lock_front env)) st)
      else (bos st (unat (frame_count st mod NUM_BUFFERS)), st))"

text \<open>
  Lines 460 to 465: \<^verbatim>\<open>eglClientWaitSyncKHR\<close> is called until it answers
  \<^verbatim>\<open>EGL_CONDITION_SATISFIED_KHR\<close>; \<open>w i\<close> is the answer to call \<open>i\<close>. The result is the
  number of calls made, and there is none when no call is ever satisfied.
\<close>

partial_function (option) client_wait_loop :: "(nat \<Rightarrow> int) \<Rightarrow> nat \<Rightarrow> nat option" where
  "client_wait_loop w i =
     (if w i = EGL_CONDITION_SATISFIED_KHR then Some (Suc i) else client_wait_loop w (Suc i))"

declare client_wait_loop.simps [code]

text \<open>Lines 452 to 468: block on the imported fence, if there is one, then destroy it.\<close>

definition wait_kms_fence :: "frame_env \<Rightarrow> EGLSyncKHR option \<Rightarrow> state \<Rightarrow> state option" where
  "wait_kms_fence env kms_fence st =
     (case kms_fence of
        None \<Rightarrow> Some st
      | Some fence \<Rightarrow>
          (case client_wait_loop (client_wait env) 0 of
             None \<Rightarrow> None
           | Some n \<Rightarrow>
               Some (emit (EglDestroySync fence)
                       (st\<lparr>trace := trace st @
                              map (\<lambda>i. EglClientWaitSync fence (client_wait env i)) [0..<n]\<rparr>))))"

text \<open>Lines 470 to 478: the fps report, every two seconds.\<close>

definition report_fps :: "frame_env \<Rightarrow> state \<Rightarrow> state" where
  "report_fps env st =
     (let st1 = st\<lparr>cur_time := now env\<rparr>
      in if report_time st1 + 2 * NSEC_PER_SEC < cur_time st1
         then (emit (Printf ''Rendered frames'') st1)\<lparr>report_time := cur_time st1\<rparr>
         else st1)"

text \<open>Lines 501 to 507: after a successful commit.\<close>

definition finish_frame :: "bo_ref \<Rightarrow> state \<Rightarrow> state" where
  "finish_frame next_bo st =
     (let st1 = (case bo st of
                   Some old \<Rightarrow> if surface st then emit (GbmSurfaceReleaseBuffer old) st else st
                 | None \<Rightarrow> st)
      in st1\<lparr>bo := Some next_bo, flags := flags st1 AND NOT DRM_MODE_ATOMIC_ALLOW_MODESET\<rparr>)"

text \<open>
  Lines 480 to 507: poll for user input, commit, and on success hand the buffers over.
  \<open>f\<close> is the member \<^verbatim>\<open>fb\<close>, which \<^verbatim>\<open>fb->fb_id\<close> dereferences.
\<close>

definition present :: "frame_env \<Rightarrow> bo_ref \<Rightarrow> fb_ref \<Rightarrow> state \<Rightarrow> error + state" where
  "present env next_bo f st =
     (let st1 = emit (Poll (poll_ret env)) (st\<lparr>ret := poll_ret env\<rparr>)
      in if 0 < ret st1 then Inr (emit (Printf ''user interrupted!'') st1)
         else
           (case fb_mem st1 f of
              None \<Rightarrow> Inl (Undefined_behaviour ''fb'')
            | Some r \<Rightarrow>
                let (rc, st2) = drm_atomic_commit env (fb_id r) (flags st1) st1;
                    st3 = st2\<lparr>ret := rc\<rparr>
                in if ret st3 \<noteq> 0 then Inr (emit (Printf ''failed to commit'') st3)
                   else Inr (finish_frame next_bo st3)))"

text \<open>
  \<^verbatim>\<open>EglDrawable::swapBuffers\<close>. The result is None when the call never returns (the wait
  loop), an error when the process ends inside the call, and the state at the return
  otherwise.
\<close>

definition swapBuffers :: "frame_env \<Rightarrow> state \<Rightarrow> (error + state) option" where
  "swapBuffers env st =
     (if \<not> bind_api_ok env then Some (Inl (Exit 1))
      else
        case import_kms_fence env st of
          Inl e \<Rightarrow> Some (Inl e)
        | Inr (kms_fence, st1) \<Rightarrow>
            (case export_gpu_fence env (count_frame env st1) of
               Inl e \<Rightarrow> Some (Inl e)
             | Inr st2 \<Rightarrow>
                 (case acquire_next env st2 of
                    (None, st3) \<Rightarrow> Some (Inr (emit (Printf ''Failed to lock frontbuffer'') st3))
                  | (Some next_bo, st3) \<Rightarrow>
                      (case drm_fb_get_from_bo (addfb env) st3 next_bo of
                         Inl e \<Rightarrow> Some (Inl e)
                       | Inr (None, st4) \<Rightarrow>
                           Some (Inr (emit (Printf ''Failed to get a new framebuffer BO'')
                                        (st4\<lparr>fb := None\<rparr>)))
                       | Inr (Some f, st4) \<Rightarrow>
                           (case wait_kms_fence env kms_fence (st4\<lparr>fb := Some f\<rparr>) of
                              None \<Rightarrow> None
                            | Some st5 \<Rightarrow> Some (present env next_bo f (report_fps env st5)))))))"

text \<open>A session: the calls a caller makes on one drawable, in order.\<close>

fun run :: "call list \<Rightarrow> state \<Rightarrow> (error + state) option" where
  "run [] st = Some (Inr st)"
| "run (Show env # cs) st = run cs (show env st)"
| "run (SwapBuffers env # cs) st =
     (case swapBuffers env st of
        None \<Rightarrow> None
      | Some (Inl e) \<Rightarrow> Some (Inl e)
      | Some (Inr st1) \<Rightarrow> run cs st1)"

section \<open>Vocabulary of the properties\<close>

text \<open>The events a call appended to the trace.\<close>

definition events_since :: "state \<Rightarrow> state \<Rightarrow> event list" where
  "events_since st st' = drop (length (trace st)) (trace st')"

text \<open>The two kernel framebuffer-creation calls, and those that succeeded.\<close>

fun is_fb_creation :: "event \<Rightarrow> bool" where
  "is_fb_creation (DrmModeAddFB2WithModifiers w h fmt hs ss os ms fl r) = True"
| "is_fb_creation (DrmModeAddFB2 w h fmt hs ss os fl r) = True"
| "is_fb_creation _ = False"

fun fb_creation_ok :: "event \<Rightarrow> bool" where
  "fb_creation_ok (DrmModeAddFB2WithModifiers w h fmt hs ss os ms fl r) = (r = 0)"
| "fb_creation_ok (DrmModeAddFB2 w h fmt hs ss os fl r) = (r = 0)"
| "fb_creation_ok _ = False"

text \<open>The modifier-aware attempt on a buffer, with the modifiers flag set, and the legacy
  attempt on its first handle and stride, each with the code the kernel returned.\<close>

definition modifier_attempt :: "gbm_bo \<Rightarrow> int \<Rightarrow> event" where
  "modifier_attempt g r =
     (case plane_arrays g of (hs, ss, os, ms) \<Rightarrow>
        DrmModeAddFB2WithModifiers (bo_width g) (bo_height g) (bo_format g) hs ss os ms
          DRM_MODE_FB_MODIFIERS r)"

definition legacy_attempt :: "gbm_bo \<Rightarrow> int \<Rightarrow> event" where
  "legacy_attempt g r =
     DrmModeAddFB2 (bo_width g) (bo_height g) (bo_format g)
       [bo_handle g, 0, 0, 0] [bo_stride g, 0, 0, 0] [0, 0, 0, 0] 0 r"

text \<open>The events the session properties speak about: kernel commits, buffer releases,
  framebuffer removals, and the completion of \<^verbatim>\<open>show\<close>.\<close>

fun is_commit :: "event \<Rightarrow> bool" where
  "is_commit (DrmModeAtomicCommit req fl rc) = True"
| "is_commit _ = False"

fun is_release :: "event \<Rightarrow> bool" where
  "is_release (GbmSurfaceReleaseBuffer b) = True"
| "is_release _ = False"

fun is_rmfb :: "event \<Rightarrow> bool" where
  "is_rmfb (DrmModeRmFB i) = True"
| "is_rmfb _ = False"

definition is_key :: "event \<Rightarrow> bool" where
  "is_key e \<longleftrightarrow> is_commit e \<or> is_release e \<or> is_rmfb e \<or> e = Drawable_show"

text \<open>A step that only appends events to the trace, none of them one of those.\<close>

definition logs :: "state \<Rightarrow> state \<Rightarrow> bool" where
  "logs st st' \<longleftrightarrow> (\<exists>evs. st' = st\<lparr>trace := trace st @ evs\<rparr> \<and> filter is_key evs = [])"

text \<open>A step that leaves the flags, the displayed buffer and the fence fds of the
  drawable alone and logs no commit, release or show.\<close>

definition quiet :: "state \<Rightarrow> state \<Rightarrow> bool" where
  "quiet st st' \<longleftrightarrow>
     flags st' = flags st \<and> bo st' = bo st \<and> surface st' = surface st \<and>
     visible st' = visible st \<and> plane_id st' = plane_id st \<and> crtc_id st' = crtc_id st \<and>
     out_fence_ptr st' = out_fence_ptr st \<and>
     (\<exists>evs. trace st' = trace st @ evs \<and> filter is_key evs = [])"

text \<open>An item of an atomic request that sets a property of the plane, or hands the
  address of \<^verbatim>\<open>kms_out_fence_fd\<close> to the crtc.\<close>

definition plane_or_fence_item :: "state \<Rightarrow> u32 \<times> u32 \<times> u64 \<Rightarrow> bool" where
  "plane_or_fence_item st x \<longleftrightarrow>
     fst x = plane_id st \<or> (fst x = crtc_id st \<and> snd (snd x) = out_fence_ptr st)"

text \<open>What a successful frame hands back to the chain surface: the previously displayed
  buffer, if there is one.\<close>

definition released :: "state \<Rightarrow> event list" where
  "released st = (case bo st of
                    Some old \<Rightarrow> if surface st then [GbmSurfaceReleaseBuffer old] else []
                  | None \<Rightarrow> [])"

text \<open>The messages \<^verbatim>\<open>swapBuffers\<close> logs right before it returns early.\<close>

definition skip_messages :: "string set" where
  "skip_messages = {''Failed to lock frontbuffer'', ''Failed to get a new framebuffer BO'',
                    ''user interrupted!'', ''failed to commit''}"

text \<open>A call that ended in one of the three recoverable per-frame failures: the last
  thing it did was to log that failure.\<close>

definition per_frame_failure :: "event list \<Rightarrow> bool" where
  "per_frame_failure evs \<longleftrightarrow>
     evs \<noteq> [] \<and>
     last evs \<in> {Printf ''Failed to lock frontbuffer'',
                 Printf ''Failed to get a new framebuffer BO'',
                 Printf ''failed to commit''}"

text \<open>Whether commit flags include \<^verbatim>\<open>DRM_MODE_ATOMIC_ALLOW_MODESET\<close>.\<close>

definition has_modeset :: "u32 \<Rightarrow> bool" where
  "has_modeset fl \<longleftrightarrow> fl AND DRM_MODE_ATOMIC_ALLOW_MODESET \<noteq> 0"

text \<open>No kernel commit in the trace was submitted with the mode-set flag.\<close>

fun no_modeset :: "event list \<Rightarrow> bool" where
  "no_modeset [] = True"
| "no_modeset (e # es) =
     (case e of
        DrmModeAtomicCommit req fl rc \<Rightarrow> \<not> has_modeset fl \<and> no_modeset es
      | _ \<Rightarrow> no_modeset es)"

text \<open>The kernel commits in the trace carry the mode-set flag up to and including the
  first one the kernel accepted, and none after it does.\<close>

fun modeset_until_first_success :: "event list \<Rightarrow> bool" where
  "modeset_until_first_success [] = True"
| "modeset_until_first_success (e # es) =
     (case e of
        DrmModeAtomicCommit req fl rc \<Rightarrow>
          has_modeset fl \<and> (if rc = 0 then no_modeset es else modeset_until_first_success es)
      | _ \<Rightarrow> modeset_until_first_success es)"

text \<open>
  Whether, after the events of a trace, \<^verbatim>\<open>show\<close> has run to completion (it then calls
  \<^verbatim>\<open>Drawable::show()\<close>) with no accepted commit since; the first argument is the answer
  before the trace.
\<close>

fun armed_after :: "bool \<Rightarrow> event list \<Rightarrow> bool" where
  "armed_after a [] = a"
| "armed_after a (e # es) =
     armed_after (case e of
                    Drawable_show \<Rightarrow> True
                  | DrmModeAtomicCommit req fl rc \<Rightarrow> a \<and> rc \<noteq> 0
                  | _ \<Rightarrow> a) es"

text \<open>Every kernel commit of the trace that carries the mode-set flag was submitted
  after a completed \<^verbatim>\<open>show\<close> with no accepted commit in between.\<close>

fun modeset_only_armed :: "bool \<Rightarrow> event list \<Rightarrow> bool" where
  "modeset_only_armed a [] = True"
| "modeset_only_armed a (e # es) =
     ((case e of DrmModeAtomicCommit req fl rc \<Rightarrow> has_modeset fl \<longrightarrow> a | _ \<Rightarrow> True) \<and>
      modeset_only_armed (armed_after a [e]) es)"


text \<open>The calls of \<^verbatim>\<open>close\<close>.\<close>

fun is_close :: "event \<Rightarrow> bool" where
  "is_close (Close fd) = True"
| "is_close _ = False"

text \<open>The registrations of a destructor hook on buffer \<open>b\<close>.\<close>

fun is_set_user_data :: "bo_ref \<Rightarrow> event \<Rightarrow> bool" where
  "is_set_user_data b (GbmBoSetUserData b' f) = (b' = b)"
| "is_set_user_data b _ = False"

text \<open>The kernel never hands out 0 as the id of a framebuffer it created.\<close>

definition nonzero_ids :: "addfb_env \<Rightarrow> bool" where
  "nonzero_ids k \<longleftrightarrow>
     (fst (addfb2_with_modifiers k) = 0 \<longrightarrow> snd (addfb2_with_modifiers k) \<noteq> 0) \<and>
     (fst (addfb2 k) = 0 \<longrightarrow> snd (addfb2 k) \<noteq> 0)"

text \<open>
  The id the kernel stores through \<^verbatim>\<open>&fb->fb_id\<close> in a resolve that creates the
  framebuffer: that of \<^verbatim>\<open>drmModeAddFB2WithModifiers\<close> when it returns 0, otherwise that of
  \<^verbatim>\<open>drmModeAddFB2\<close> when it returns 0.
\<close>

definition created_id :: "addfb_env \<Rightarrow> u32 option" where
  "created_id k =
     (if fst (addfb2_with_modifiers k) = 0 then Some (snd (addfb2_with_modifiers k))
      else if fst (addfb2 k) = 0 then Some (snd (addfb2 k))
      else None)"

text \<open>
  The id the kernel handed out for the framebuffer of buffer \<open>b\<close> in a sequence of
  resolves that starts with \<open>b\<close> carrying no handle: the one of the first resolve of \<open>b\<close>
  in which a creation call succeeded.
\<close>

fun first_created :: "bo_ref \<Rightarrow> (bo_ref \<times> addfb_env) list \<Rightarrow> u32 option" where
  "first_created b [] = None"
| "first_created b ((b', k) # rs) =
     (case (if b' = b then created_id k else None) of
        Some i \<Rightarrow> Some i
      | None \<Rightarrow> first_created b rs)"

text \<open>
  The two states a buffer can be in with respect to its presentation handle, together
  with the registrations made so far and the id the kernel handed out for it: no handle,
  no hook, nothing registered, no id; or a live handle record that names the buffer and
  holds that id, non-zero, the hook, and the one registration that attached it.
\<close>

definition handle_state :: "bo_ref \<Rightarrow> state \<Rightarrow> event list \<Rightarrow> u32 option \<Rightarrow> bool" where
  "handle_state b st regs kid \<longleftrightarrow>
     (regs = [] \<and> kid = None \<and> user_data (bo_mem st b) = None \<and>
      destroy_user_data (bo_mem st b) = None) \<or>
     (\<exists>f i. regs = [GbmBoSetUserData b f] \<and> kid = Some i \<and> user_data (bo_mem st b) = Some f \<and>
            destroy_user_data (bo_mem st b) = Some Drm_fb_destroy_callback \<and>
            f < next_fb st \<and> i \<noteq> 0 \<and> fb_mem st f = Some \<lparr>fb_bo = b, fb_id = i\<rparr>)"

text \<open>The events that let a kernel commit be told apart from the waits on the display
  fence: commits, imports of a display fence fd, and waits.\<close>

fun display_fence_event :: "event \<Rightarrow> bool" where
  "display_fence_event (DrmModeAtomicCommit req fl rc) = True"
| "display_fence_event (EglCreateSync fd s) = (fd \<noteq> - 1)"
| "display_fence_event (EglWaitSync s) = True"
| "display_fence_event (EglClientWaitSync s r) = True"
| "display_fence_event _ = False"

section \<open>Concrete sessions\<close>

text \<open>A single-plane 1920x1080 XRGB8888 buffer with a tiling modifier.\<close>

definition tiled_bo :: gbm_bo where
  "tiled_bo = \<lparr>bo_width = 1920, bo_height = 1080, bo_format = 0x34325258,
              bo_modifier = 0x100000000000001,
              bo_planes = [\<lparr>pl_handle = 5, pl_stride = 7680, pl_offset = 0\<rparr>],
              bo_handle = 5, bo_stride = 7680,
              user_data = None, destroy_user_data = None\<rparr>"

text \<open>
  The state after initialisation and construction of the drawable: a chain surface, no
  display fence outstanding, every buffer without a presentation handle. The
  constructor initialises \<^verbatim>\<open>frame_count\<close> and \<^verbatim>\<open>flags\<close> only: the members \<^verbatim>\<open>bo\<close> and
  \<^verbatim>\<open>fb\<close> have no initialiser, so their values at construction are indeterminate and are
  arguments here. (The clocks and \<^verbatim>\<open>ret\<close> are not initialised either; they are written
  before anything below depends on them and start at 0.)
\<close>

definition constructed :: "bo_ref option \<Rightarrow> fb_ref option \<Rightarrow> state" where
  "constructed b0 f0 =
     \<lparr>kms_in_fence_fd = 0, kms_out_fence_fd = - 1, out_fence_ptr = 0x1000,
      plane_props = [(''type'', 5), (''FB_ID'', 16), (''IN_FENCE_FD'', 17), (''CRTC_ID'', 19),
                     (''CRTC_X'', 8), (''CRTC_Y'', 9), (''CRTC_W'', 10), (''CRTC_H'', 11),
                     (''SRC_X'', 12), (''SRC_Y'', 13), (''SRC_W'', 14), (''SRC_H'', 15)],
      crtc_props = [(''ACTIVE'', 21), (''MODE_ID'', 22), (''OUT_FENCE_PTR'', 23)],
      connector_props = [(''DPMS'', 2), (''CRTC_ID'', 19)],
      plane_id = 31, crtc_id = 41, connector_id = 51,
      hdisplay = 1920, vdisplay = 1080,
      surface = True, bos = (\<lambda>i. None), bo_mem = (\<lambda>b. tiled_bo), fb_mem = Map.empty,
      next_fb = 1, bo = b0, fb = f0, frame_count = 0,
      start_time = 0, report_time = 0, cur_time = 0, ret = 0,
      flags = DRM_MODE_ATOMIC_NONBLOCK, visible = False, trace = []\<rparr>"

text \<open>The session in which the two indeterminate members happen to be NULL.\<close>

definition session0 :: state where
  "session0 = constructed None None"

text \<open>A kernel that refuses the modifier-aware creation and accepts the legacy one, and a
  kernel that refuses both.\<close>

definition kernel_rejects_modifiers :: addfb_env where
  "kernel_rejects_modifiers = \<lparr>addfb2_with_modifiers = (- 22, 0), addfb2 = (0, 77)\<rparr>"

definition kernel_rejects_all :: addfb_env where
  "kernel_rejects_all = \<lparr>addfb2_with_modifiers = (- 22, 0), addfb2 = (- 22, 0)\<rparr>"

text \<open>A kernel that accepts both creation calls.\<close>

definition kernel_accepts :: addfb_env where
  "kernel_accepts = \<lparr>addfb2_with_modifiers = (0, 77), addfb2 = (0, 78)\<rparr>"

text \<open>A frame in which everything succeeds and the kernel hands back the completion
  fence fd 10; the same frame with no front buffer to lock; with the commit refused.\<close>

definition frame_ok :: frame_env where
  "frame_ok =
     \<lparr>bind_api_ok = True, kms_sync = 11, gpu_sync = 12, dup_fd = 9, lock_front = Some 3,
      addfb = kernel_accepts, client_wait = (\<lambda>i. EGL_CONDITION_SATISFIED_KHR),
      restart_time = 0, now = 0, poll_ret = 0, blob = (0, 99), commit_ret = 0,
      kernel_out_fence = Some 10\<rparr>"

definition frame_lock_fails :: frame_env where
  "frame_lock_fails = frame_ok\<lparr>lock_front := None\<rparr>"

definition frame_commit_fails :: frame_env where
  "frame_commit_fails = frame_ok\<lparr>commit_ret := - 16, kernel_out_fence := Some (- 1)\<rparr>"

text \<open>A \<^verbatim>\<open>show\<close> that finds everything it checks for, one that finds no native fence
  sync extension, and a successful frame that locks another buffer.\<close>

definition show_ok :: show_env where
  "show_ok = \<lparr>has_native_fence_sync = True, procs_available = True, show_time = 0,
              visible_after_base_show = True\<rparr>"

definition show_without_fence_sync :: show_env where
  "show_without_fence_sync = show_ok\<lparr>has_native_fence_sync := False\<rparr>"

definition frame_next_ok :: frame_env where
  "frame_next_ok = frame_ok\<lparr>lock_front := Some 4\<rparr>"

text \<open>The session state, with an exported GPU fence, on a kernel whose plane exposes no
  \<^verbatim>\<open>IN_FENCE_FD\<close> and whose crtc exposes no \<^verbatim>\<open>OUT_FENCE_PTR\<close>.\<close>

definition session_without_fence_props :: state where
  "session_without_fence_props =
     session0\<lparr>kms_in_fence_fd := 9,
              plane_props := [(''type'', 5), (''FB_ID'', 16), (''CRTC_ID'', 19),
                     (''CRTC_X'', 8), (''CRTC_Y'', 9), (''CRTC_W'', 10), (''CRTC_H'', 11),
                     (''SRC_X'', 12), (''SRC_Y'', 13), (''SRC_W'', 14), (''SRC_H'', 15)],
              crtc_props := [(''ACTIVE'', 21), (''MODE_ID'', 22)]\<rparr>"

section \<open>Auxiliary lemmas\<close>

lemma plane_loop_modifier0:
  "foldl (\<lambda>(hs, ss, os, ms) i. (F hs i, G ss i, H os i, ms[i := ms ! 0])) (a, b, c, ms0) [0..<n]
     = (hs', ss', os', ms') \<Longrightarrow> ms0 \<noteq> [] \<Longrightarrow> ms' ! 0 = ms0 ! 0 \<and> ms' \<noteq> []"
proof (induction n arbitrary: hs' ss' os' ms')
  case 0
  then show ?case by simp
next
  case (Suc n)
  obtain h1 s1 o1 m1 where
    p: "foldl (\<lambda>(hs, ss, os, ms) i. (F hs i, G ss i, H os i, ms[i := ms ! 0])) (a, b, c, ms0) [0..<n]
          = (h1, s1, o1, m1)"
    using prod_cases4 by blast
  from Suc.IH [OF p Suc.prems(2)] have m1: "m1 ! 0 = ms0 ! 0" "m1 \<noteq> []" by simp_all
  from Suc.prems(1) p have "ms' = m1[n := m1 ! 0]" by simp
  with m1 show ?case by (cases n) (simp_all add: nth_list_update)
qed

lemma plane_arrays_modifier0:
  "plane_arrays g = (hs, ss, os, ms) \<Longrightarrow> ms ! 0 = bo_modifier g"
  unfolding plane_arrays_def
  by (drule plane_loop_modifier0) simp_all

lemmas fb_defs = drm_fb_get_from_bo_def create_fb_def Let_def emit_def set_fb_id_def
  gbm_bo_set_user_data_def

text \<open>The wait loop returns as soon as one call is answered with
  \<^verbatim>\<open>EGL_CONDITION_SATISFIED_KHR\<close>.\<close>

lemma client_wait_loop_returns:
  "w (i + k) = EGL_CONDITION_SATISFIED_KHR \<Longrightarrow> \<exists>n. client_wait_loop w i = Some n"
proof (induction k arbitrary: i)
  case 0
  then show ?case by (subst client_wait_loop.simps) simp
next
  case (Suc k)
  then have "w (Suc i + k) = EGL_CONDITION_SATISFIED_KHR" by simp
  from Suc.IH [OF this] obtain n where "client_wait_loop w (Suc i) = Some n" ..
  then show ?case by (subst client_wait_loop.simps) auto
qed

lemma wait_kms_fence_returns:
  "client_wait env k = EGL_CONDITION_SATISFIED_KHR \<Longrightarrow> \<exists>st'. wait_kms_fence env kf st = Some st'"
  using client_wait_loop_returns [of "client_wait env" 0 k]
  by (cases kf) (auto simp: wait_kms_fence_def)

section \<open>Frame lemmas for the stages of a swap\<close>

lemma logs_refl: "logs st st"
  unfolding logs_def by (rule exI [of _ "[]"]) simp

lemma logs_emit: "\<not> is_key e \<Longrightarrow> logs st (emit e st)"
  unfolding logs_def by (rule exI [of _ "[e]"]) (simp add: emit_def)

lemma logs_trans: "logs st st1 \<Longrightarrow> logs st1 st2 \<Longrightarrow> logs st st2"
proof -
  assume a: "logs st st1" and b: "logs st1 st2"
  from a obtain e1 where a1: "st1 = st\<lparr>trace := trace st @ e1\<rparr>"
    and a3: "filter is_key e1 = []" unfolding logs_def by blast
  from b obtain e2 where b1: "st2 = st1\<lparr>trace := trace st1 @ e2\<rparr>"
    and b3: "filter is_key e2 = []" unfolding logs_def by blast
  have "st2 = st\<lparr>trace := trace st @ (e1 @ e2)\<rparr>" by (simp add: a1 b1)
  moreover have "filter is_key (e1 @ e2) = []" using a3 b3 by simp
  ultimately show ?thesis unfolding logs_def by blast
qed

lemma add_crtc_property_logs:
  "add_crtc_property st req obj name v = (r, req', st') \<Longrightarrow> logs st st'"
  by (auto simp: add_crtc_property_def Let_def drmModeAtomicAddProperty_def is_key_def
      split: if_splits intro: logs_refl logs_emit)

lemma add_plane_property_logs:
  "add_plane_property st req obj name v = (r, req', st') \<Longrightarrow> logs st st'"
  by (auto simp: add_plane_property_def Let_def drmModeAtomicAddProperty_def is_key_def
      split: if_splits intro: logs_refl logs_emit)

lemma add_connector_property_logs:
  "add_connector_property st req obj name v = (r, req', st') \<Longrightarrow> logs st st'"
  by (auto simp: add_connector_property_def Let_def drmModeAtomicAddProperty_def is_key_def
      split: if_splits intro: logs_refl logs_emit)

lemma add_plane_properties_logs:
  "add_plane_properties st req obj nvs = (req', st') \<Longrightarrow> logs st st'"
proof (induction nvs arbitrary: st req)
  case Nil
  then show ?case by (simp add: logs_refl)
next
  case (Cons nv nvs)
  obtain name v where nv: "nv = (name, v)" by (cases nv)
  obtain r req1 st1 where a: "add_plane_property st req obj name v = (r, req1, st1)"
    using prod_cases3 by blast
  from Cons.prems nv a have "add_plane_properties st1 req1 obj nvs = (req', st')" by simp
  from Cons.IH [OF this] add_plane_property_logs [OF a] show ?case by (blast intro: logs_trans)
qed

lemma fence_block_logs:
  "fence_block st req = (out, req', st') \<Longrightarrow> logs st st'"
proof (cases "kms_in_fence_fd st \<noteq> - 1")
  case False
  assume "fence_block st req = (out, req', st')"
  with False show ?thesis by (simp add: fence_block_def logs_refl)
next
  case True
  assume fb: "fence_block st req = (out, req', st')"
  obtain r1 req1 st1 where a: "add_crtc_property st req (crtc_id st) ''OUT_FENCE_PTR'' (out_fence_ptr st) = (r1, req1, st1)"
    using prod_cases3 by blast
  obtain r2 req2 st2 where b: "add_plane_property st1 req1 (plane_id st1) ''IN_FENCE_FD'' (word_of_int (kms_in_fence_fd st1)) = (r2, req2, st2)"
    using prod_cases3 by blast
  from fb True a b have "st' = st2" by (simp add: fence_block_def)
  with add_crtc_property_logs [OF a] add_plane_property_logs [OF b] show ?thesis
    by (blast intro: logs_trans)
qed

lemma modeset_block_logs:
  "modeset_block env st req = (ok, req', st') \<Longrightarrow> logs st st'"
proof -
  assume mb: "modeset_block env st req = (ok, req', st')"
  obtain r1 req1 st1 where a: "add_connector_property st req (connector_id st) ''CRTC_ID'' (ucast (crtc_id st)) = (r1, req1, st1)"
    using prod_cases3 by blast
  obtain rb blob_id where bl: "blob env = (rb, blob_id)" by (cases "blob env")
  let ?st2 = "emit (DrmModeCreatePropertyBlob rb) st1"
  obtain r2 req2 st3 where b: "add_crtc_property ?st2 req1 (crtc_id ?st2) ''MODE_ID'' (ucast blob_id) = (r2, req2, st3)"
    using prod_cases3 by blast
  obtain r3 req3 st4 where c: "add_crtc_property st3 req2 (crtc_id st3) ''ACTIVE'' 1 = (r3, req3, st4)"
    using prod_cases3 by blast
  have l1: "logs st st1" by (rule add_connector_property_logs [OF a])
  have l2: "logs st1 ?st2" by (rule logs_emit) (simp add: is_key_def)
  have l3: "logs ?st2 st3" by (rule add_crtc_property_logs [OF b])
  have l4: "logs st3 st4" by (rule add_crtc_property_logs [OF c])
  from mb a bl b c have "st' = st1 \<or> st' = ?st2 \<or> st' = st3 \<or> st' = st4"
    by (simp add: modeset_block_def Let_def split: if_splits)
  with l1 l2 l3 l4 show ?thesis by (blast intro: logs_trans)
qed

lemma logsE:
  assumes "logs st st'"
  obtains evs where "st' = st\<lparr>trace := trace st @ evs\<rparr>" "filter is_key evs = []"
  using assms unfolding logs_def by blast

lemma add_plane_property_items:
  "add_plane_property st req obj name v = (r, req', st') \<Longrightarrow>
     \<forall>x \<in> set req'. x \<in> set req \<or> fst x = obj"
  by (auto simp: add_plane_property_def Let_def drmModeAtomicAddProperty_def split: if_splits)

lemma add_crtc_property_items:
  "add_crtc_property st req obj name v = (r, req', st') \<Longrightarrow>
     \<forall>x \<in> set req'. x \<in> set req \<or> (fst x = obj \<and> snd (snd x) = v)"
  by (auto simp: add_crtc_property_def Let_def drmModeAtomicAddProperty_def split: if_splits)

lemma add_plane_properties_items:
  "add_plane_properties st req obj nvs = (req', st') \<Longrightarrow>
     \<forall>x \<in> set req'. x \<in> set req \<or> fst x = obj"
proof (induction nvs arbitrary: st req)
  case Nil
  then show ?case by simp
next
  case (Cons nv nvs)
  obtain name v where nv: "nv = (name, v)" by (cases nv)
  obtain r req1 st1 where a: "add_plane_property st req obj name v = (r, req1, st1)"
    using prod_cases3 by blast
  from Cons.prems nv a have "add_plane_properties st1 req1 obj nvs = (req', st')" by simp
  from Cons.IH [OF this] add_plane_property_items [OF a] show ?case by blast
qed

lemma fence_block_items:
  assumes "fence_block st req = (out, req', st')"
  shows "\<forall>x \<in> set req'. x \<in> set req \<or> plane_or_fence_item st x"
proof (cases "kms_in_fence_fd st \<noteq> - 1")
  case False
  with assms show ?thesis by (simp add: fence_block_def)
next
  case True
  obtain r1 req1 st1 where a: "add_crtc_property st req (crtc_id st) ''OUT_FENCE_PTR'' (out_fence_ptr st) = (r1, req1, st1)"
    using prod_cases3 by blast
  obtain r2 req2 st2 where b: "add_plane_property st1 req1 (plane_id st1) ''IN_FENCE_FD'' (word_of_int (kms_in_fence_fd st1)) = (r2, req2, st2)"
    using prod_cases3 by blast
  from add_crtc_property_logs [OF a] have p: "plane_id st1 = plane_id st"
    by (auto elim!: logsE)
  from assms True a b have e: "req' = req2" by (simp add: fence_block_def)
  show ?thesis
  proof
    fix x assume "x \<in> set req'"
    with e have "x \<in> set req2" by simp
    with add_plane_property_items [OF b] p have "x \<in> set req1 \<or> fst x = plane_id st" by simp
    moreover have "x \<in> set req1 \<Longrightarrow> x \<in> set req \<or> (fst x = crtc_id st \<and> snd (snd x) = out_fence_ptr st)"
      using add_crtc_property_items [OF a] by simp
    ultimately show "x \<in> set req \<or> plane_or_fence_item st x"
      unfolding plane_or_fence_item_def by fastforce
  qed
qed

lemma drm_atomic_commit_cases:
  assumes dac: "drm_atomic_commit env fbid fl st = (rc, st')"
  obtains (not_submitted) "rc = - 1" "fl AND DRM_MODE_ATOMIC_ALLOW_MODESET \<noteq> 0" "logs st st'"
  | (submitted) req out' evs1 evs2 where
      "rc = commit_ret env"
      "filter is_key evs1 = []" "filter is_key evs2 = []"
      "st' = st\<lparr>kms_in_fence_fd := (if rc = 0 then - 1 else kms_in_fence_fd st),
                kms_out_fence_fd := out',
                trace := trace st @ evs1 @ DrmModeAtomicCommit req fl rc # evs2 @ [DrmModeAtomicFree]\<rparr>"
      "out' = kms_out_fence_fd st \<or> kernel_out_fence env = Some out'"
      "fl AND DRM_MODE_ATOMIC_ALLOW_MODESET = 0 \<longrightarrow> (\<forall>x \<in> set req. plane_or_fence_item st x)"
proof -
  let ?st0 = "emit DrmModeAtomicAlloc st"
  have l0: "logs st ?st0" by (rule logs_emit) (simp add: is_key_def)
  obtain ok req1 st1 where m: "(if fl AND DRM_MODE_ATOMIC_ALLOW_MODESET \<noteq> 0 then modeset_block env ?st0 []
             else (True, [], ?st0)) = (ok, req1, st1)"
    using prod_cases3 by blast
  have l1: "logs ?st0 st1"
    using m by (auto split: if_splits intro: logs_refl modeset_block_logs)
  have r1: "fl AND DRM_MODE_ATOMIC_ALLOW_MODESET = 0 \<longrightarrow> ok \<and> req1 = []"
    using m by (auto split: if_splits)
  show ?thesis
  proof (cases ok)
    case False
    with dac m have "rc = - 1" "st' = st1" by (simp_all add: drm_atomic_commit_def)
    moreover from False r1 have "fl AND DRM_MODE_ATOMIC_ALLOW_MODESET \<noteq> 0" by blast
    moreover from l0 l1 have "logs st st1" by (rule logs_trans)
    ultimately show ?thesis using not_submitted by blast
  next
    case True
    obtain req2 st2 where p: "add_plane_properties st1 req1 (plane_id st1) (plane_values st1 fbid) = (req2, st2)"
      by (cases "add_plane_properties st1 req1 (plane_id st1) (plane_values st1 fbid)")
    obtain out req3 st3 where f: "fence_block st2 req2 = (out, req3, st3)"
      using prod_cases3 by blast
    have l2: "logs st1 st2" by (rule add_plane_properties_logs [OF p])
    have l3: "logs st2 st3" by (rule fence_block_logs [OF f])
    have l01: "logs st st1" using l0 l1 by (rule logs_trans)
    have l02: "logs st st2" using l01 l2 by (rule logs_trans)
    have l03: "logs st st3" using l02 l3 by (rule logs_trans)
    from l03 obtain evs1 where s3: "st3 = st\<lparr>trace := trace st @ evs1\<rparr>" and k1: "filter is_key evs1 = []"
      by (rule logsE)
    have items: "fl AND DRM_MODE_ATOMIC_ALLOW_MODESET = 0 \<longrightarrow> (\<forall>x \<in> set req3. plane_or_fence_item st x)"
    proof
      assume "fl AND DRM_MODE_ATOMIC_ALLOW_MODESET = 0"
      with r1 have e: "req1 = []" by simp
      from l01 have i1: "plane_id st1 = plane_id st" by (auto elim!: logsE)
      from l02 have i2: "plane_id st2 = plane_id st" "crtc_id st2 = crtc_id st" "out_fence_ptr st2 = out_fence_ptr st"
        by (auto elim!: logsE)
      from add_plane_properties_items [OF p] e i1 have "\<forall>x \<in> set req2. fst x = plane_id st" by simp
      with fence_block_items [OF f] i2 show "\<forall>x \<in> set req3. plane_or_fence_item st x"
        unfolding plane_or_fence_item_def by auto
    qed
    let ?out = "(case kernel_out_fence env of Some fd \<Rightarrow> if out then fd else kms_out_fence_fd st
                 | None \<Rightarrow> kms_out_fence_fd st)"
    let ?evs2 = "(if commit_ret env = 0 \<and> kms_in_fence_fd st \<noteq> - 1 then [Close (kms_in_fence_fd st)] else [])"
    obtain r4 st4 where kc: "kernel_commit env out req3 fl st3 = (r4, st4)"
      by (cases "kernel_commit env out req3 fl st3")
    from kc have rc4: "r4 = commit_ret env" by (auto simp add: kernel_commit_def Let_def)
    from dac m True p f kc have rc': "rc = r4"
      by (simp add: drm_atomic_commit_def Let_def)
    with rc4 have rc: "rc = commit_ret env" by simp
    from dac m True p f kc rc' have st5: "st' = emit DrmModeAtomicFree
        (if rc = 0 \<and> kms_in_fence_fd st4 \<noteq> - 1
         then (emit (Close (kms_in_fence_fd st4)) st4)\<lparr>kms_in_fence_fd := - 1\<rparr> else st4)"
      by (simp add: drm_atomic_commit_def Let_def)
    from kc have st4e: "st4 = st\<lparr>kms_out_fence_fd := ?out,
                trace := trace st @ evs1 @ [DrmModeAtomicCommit req3 fl rc]\<rparr>"
      by (auto simp add: kernel_commit_def s3 emit_def Let_def rc split: option.splits)
    have st': "st' = st\<lparr>kms_in_fence_fd := (if rc = 0 then - 1 else kms_in_fence_fd st),
                kms_out_fence_fd := ?out,
                trace := trace st @ evs1 @ DrmModeAtomicCommit req3 fl rc # ?evs2 @ [DrmModeAtomicFree]\<rparr>"
      unfolding st5 st4e by (rule state.equality) (simp_all add: emit_def rc)
    have o: "?out = kms_out_fence_fd st \<or> kernel_out_fence env = Some ?out"
      by (simp split: option.splits)
    have k2: "filter is_key ?evs2 = []" by (simp add: is_key_def)
    from submitted [OF rc k1 k2 st' o items] show ?thesis .
  qed
qed

lemma quiet_refl: "quiet st st"
  by (simp add: quiet_def)

lemma quiet_trans:
  assumes "quiet st st1" and "quiet st1 st2"
  shows "quiet st st2"
proof -
  from assms(1) obtain e1 where a: "trace st1 = trace st @ e1" "filter is_key e1 = []"
    unfolding quiet_def by blast
  from assms(2) obtain e2 where b: "trace st2 = trace st1 @ e2" "filter is_key e2 = []"
    unfolding quiet_def by blast
  from a b have "trace st2 = trace st @ (e1 @ e2) \<and> filter is_key (e1 @ e2) = []" by simp
  then have "\<exists>evs. trace st2 = trace st @ evs \<and> filter is_key evs = []" by blast
  with assms show ?thesis unfolding quiet_def by simp
qed

lemma logs_quiet: "logs st st' \<Longrightarrow> quiet st st'"
  by (erule logsE) (simp add: quiet_def)

lemma quiet_emit: "\<not> is_key e \<Longrightarrow> quiet st (emit e st)"
  by (simp add: quiet_def emit_def)

lemma import_kms_fence_quiet:
  "import_kms_fence env st = Inr (kf, st1) \<Longrightarrow>
     quiet st st1 \<and> kms_out_fence_fd st1 = - 1 \<and> kms_in_fence_fd st1 = kms_in_fence_fd st \<and>
     frame_count st1 = frame_count st"
  by (auto simp: import_kms_fence_def Let_def emit_def quiet_def is_key_def split: if_splits)

lemma count_frame_quiet:
  "quiet st (count_frame env st) \<and> kms_out_fence_fd (count_frame env st) = kms_out_fence_fd st \<and>
   kms_in_fence_fd (count_frame env st) = kms_in_fence_fd st \<and>
   frame_count (count_frame env st) = frame_count st + 1"
  by (simp add: count_frame_def Let_def quiet_def)

lemma export_gpu_fence_quiet:
  "export_gpu_fence env st = Inr st1 \<Longrightarrow>
     quiet st st1 \<and> kms_out_fence_fd st1 = kms_out_fence_fd st \<and> kms_in_fence_fd st1 = dup_fd env \<and>
     dup_fd env \<noteq> - 1 \<and> frame_count st1 = frame_count st"
  by (auto simp: export_gpu_fence_def Let_def emit_def quiet_def is_key_def split: if_splits)

lemma acquire_next_quiet:
  "acquire_next env st = (nb, st1) \<Longrightarrow>
     quiet st st1 \<and> kms_out_fence_fd st1 = kms_out_fence_fd st \<and>
     kms_in_fence_fd st1 = kms_in_fence_fd st \<and> frame_count st1 = frame_count st \<and>
     (surface st \<longrightarrow> nb = lock_front env)"
  by (auto simp: acquire_next_def Let_def emit_def quiet_def is_key_def split: if_splits)

lemma create_fb_quiet:
  assumes "create_fb k st b = Inr (res, st1)"
  shows "quiet st st1 \<and> kms_out_fence_fd st1 = kms_out_fence_fd st \<and>
     kms_in_fence_fd st1 = kms_in_fence_fd st \<and> frame_count st1 = frame_count st"
proof -
  obtain hs ss os ms where pa: "plane_arrays (bo_mem st b) = (hs, ss, os, ms)"
    using prod_cases4 by blast
  obtain r1 i1 where k1: "addfb2_with_modifiers k = (r1, i1)" by (cases "addfb2_with_modifiers k")
  obtain r2 i2 where k2: "addfb2 k = (r2, i2)" by (cases "addfb2 k")
  show ?thesis
  proof (cases "r1 = 0")
    case True
    with assms show ?thesis
      by (auto simp add: fb_defs pa k1 k2 quiet_def is_key_def split: if_splits)
  next
    case False
    with assms show ?thesis
      by (auto simp add: fb_defs pa k1 k2 quiet_def is_key_def split: if_splits)
  qed
qed

lemma drm_fb_get_from_bo_quiet:
  "drm_fb_get_from_bo k st b = Inr (res, st1) \<Longrightarrow>
     quiet st st1 \<and> kms_out_fence_fd st1 = kms_out_fence_fd st \<and>
     kms_in_fence_fd st1 = kms_in_fence_fd st \<and> frame_count st1 = frame_count st"
  by (cases "user_data (bo_mem st b)")
     (auto simp add: drm_fb_get_from_bo_def quiet_refl dest: create_fb_quiet)

lemma client_wait_events_quiet:
  "filter is_key (map (\<lambda>i. EglClientWaitSync fence (w i)) xs) = []"
  by (induction xs) (simp_all add: is_key_def)

lemma wait_kms_fence_quiet:
  "wait_kms_fence env kf st = Some st1 \<Longrightarrow>
     quiet st st1 \<and> kms_out_fence_fd st1 = kms_out_fence_fd st \<and>
     kms_in_fence_fd st1 = kms_in_fence_fd st \<and> frame_count st1 = frame_count st"
  by (auto simp: wait_kms_fence_def emit_def quiet_def client_wait_events_quiet is_key_def
      split: option.splits)

lemma report_fps_quiet:
  "quiet st (report_fps env st) \<and> kms_out_fence_fd (report_fps env st) = kms_out_fence_fd st \<and>
   kms_in_fence_fd (report_fps env st) = kms_in_fence_fd st \<and>
   frame_count (report_fps env st) = frame_count st"
  by (simp add: report_fps_def Let_def quiet_def emit_def is_key_def)

lemma present_cases:
  assumes pr: "present env nb f st = Inr st'"
  obtains
    (skipped) evs msg where
      "trace st' = trace st @ evs @ [Printf msg]" "filter is_key evs = []"
      "msg = ''user interrupted!'' \<or>
       (msg = ''failed to commit'' \<and> flags st AND DRM_MODE_ATOMIC_ALLOW_MODESET \<noteq> 0)"
      "flags st' = flags st \<and> bo st' = bo st \<and> surface st' = surface st \<and> visible st' = visible st"
      "kms_in_fence_fd st' = kms_in_fence_fd st" "frame_count st' = frame_count st"
      "kms_out_fence_fd st' = kms_out_fence_fd st"
  | (commit_failed) req rc evs1 evs2 where
      "rc \<noteq> 0" "filter is_key evs1 = []" "filter is_key evs2 = []"
      "trace st' = trace st @ evs1 @ DrmModeAtomicCommit req (flags st) rc # evs2 @
                     [Printf ''failed to commit'']"
      "flags st' = flags st \<and> bo st' = bo st \<and> surface st' = surface st \<and> visible st' = visible st"
      "kms_in_fence_fd st' = kms_in_fence_fd st" "frame_count st' = frame_count st"
      "kms_out_fence_fd st' = kms_out_fence_fd st \<or> kernel_out_fence env = Some (kms_out_fence_fd st')"
      "flags st AND DRM_MODE_ATOMIC_ALLOW_MODESET = 0 \<longrightarrow> (\<forall>x \<in> set req. plane_or_fence_item st x)"
  | (success) req evs1 evs2 where
      "filter is_key evs1 = []" "filter is_key evs2 = []"
      "trace st' = trace st @ evs1 @ DrmModeAtomicCommit req (flags st) 0 # evs2 @
                     DrmModeAtomicFree # released st"
      "flags st' = flags st AND NOT DRM_MODE_ATOMIC_ALLOW_MODESET \<and> bo st' = Some nb \<and>
       surface st' = surface st \<and> visible st' = visible st"
      "kms_in_fence_fd st' = - 1" "frame_count st' = frame_count st"
      "kms_out_fence_fd st' = kms_out_fence_fd st \<or> kernel_out_fence env = Some (kms_out_fence_fd st')"
      "flags st AND DRM_MODE_ATOMIC_ALLOW_MODESET = 0 \<longrightarrow> (\<forall>x \<in> set req. plane_or_fence_item st x)"
proof -
  let ?s1 = "emit (Poll (poll_ret env)) (st\<lparr>ret := poll_ret env\<rparr>)"
  show ?thesis
  proof (cases "0 < poll_ret env")
    case True
    have "ret ?s1 = poll_ret env" by (simp add: emit_def)
    with True pr have e: "st' = emit (Printf ''user interrupted!'') ?s1"
      by (simp add: present_def Let_def)
    have k: "filter is_key [Poll (poll_ret env)] = []" by (simp add: is_key_def)
    show ?thesis
      by (rule skipped [OF _ k, of "''user interrupted!''"]) (simp_all add: e emit_def)
  next
    case False
    have s1: "fb_mem ?s1 f = fb_mem st f" "flags ?s1 = flags st" "ret ?s1 = poll_ret env"
      by (simp_all add: emit_def)
    from pr False s1 obtain r where r: "fb_mem st f = Some r"
      by (cases "fb_mem st f") (simp_all add: present_def Let_def)
    obtain rc st2 where dac: "drm_atomic_commit env (fb_id r) (flags st) ?s1 = (rc, st2)"
      by (cases "drm_atomic_commit env (fb_id r) (flags st) ?s1")
    from pr False r dac s1 have e: "st' = (if rc \<noteq> 0 then emit (Printf ''failed to commit'') (st2\<lparr>ret := rc\<rparr>)
                                  else finish_frame nb (st2\<lparr>ret := rc\<rparr>))"
      by (auto simp add: present_def Let_def split: if_splits)
    from dac show ?thesis
    proof (cases rule: drm_atomic_commit_cases)
      case not_submitted
      from not_submitted(3) obtain evs where s2: "st2 = ?s1\<lparr>trace := trace ?s1 @ evs\<rparr>"
        and k: "filter is_key evs = []" by (rule logsE)
      from not_submitted(1) e have e': "st' = emit (Printf ''failed to commit'') (st2\<lparr>ret := rc\<rparr>)"
        by simp
      have k': "filter is_key (Poll (poll_ret env) # evs) = []" using k by (simp add: is_key_def)
      show ?thesis
        by (rule skipped [OF _ k', of "''failed to commit''"])
           (use not_submitted(2) in \<open>simp_all add: e' s2 emit_def\<close>)
    next
      case (submitted req out' evs1 evs2)
      note s2 = submitted(4)
      show ?thesis
      proof (cases "rc = 0")
        case False
        with e have e': "st' = emit (Printf ''failed to commit'') (st2\<lparr>ret := rc\<rparr>)" by simp
        have k1: "filter is_key (Poll (poll_ret env) # evs1) = []"
          using submitted(2) by (simp add: is_key_def)
        have k2: "filter is_key (evs2 @ [DrmModeAtomicFree]) = []"
          using submitted(3) by (simp add: is_key_def)
        show ?thesis
          by (rule commit_failed [OF False k1 k2])
             (use False submitted(5,6) in \<open>auto simp add: e' s2 emit_def plane_or_fence_item_def\<close>)
      next
        case True
        with e have e': "st' = finish_frame nb (st2\<lparr>ret := rc\<rparr>)" by simp
        have k1: "filter is_key (Poll (poll_ret env) # evs1) = []"
          using submitted(2) by (simp add: is_key_def)
        show ?thesis
          by (rule success [OF k1 submitted(3)])
             (use True submitted(5,6) in \<open>auto simp add: e' s2 emit_def plane_or_fence_item_def
                 finish_frame_def Let_def released_def split: option.splits\<close>)
      qed
    qed
  qed
qed

lemma swapBuffers_cases:
  assumes sw: "swapBuffers env st = Some (Inr st')"
  obtains
    (skipped) evs msg where
      "trace st' = trace st @ evs @ [Printf msg]" "filter is_key evs = []"
      "msg \<in> skip_messages"
      "msg = ''failed to commit'' \<longrightarrow> flags st AND DRM_MODE_ATOMIC_ALLOW_MODESET \<noteq> 0"
      "flags st' = flags st \<and> bo st' = bo st \<and> surface st' = surface st \<and> visible st' = visible st"
      "kms_in_fence_fd st' = dup_fd env \<and> dup_fd env \<noteq> - 1"
      "frame_count st' = frame_count st + 1"
      "kms_out_fence_fd st' = - 1"
  | (commit_failed) req rc evs1 evs2 where
      "rc \<noteq> 0" "filter is_key evs1 = []" "filter is_key evs2 = []"
      "trace st' = trace st @ evs1 @ DrmModeAtomicCommit req (flags st) rc # evs2 @
                     [Printf ''failed to commit'']"
      "flags st' = flags st \<and> bo st' = bo st \<and> surface st' = surface st \<and> visible st' = visible st"
      "kms_in_fence_fd st' = dup_fd env \<and> dup_fd env \<noteq> - 1"
      "frame_count st' = frame_count st + 1"
      "kms_out_fence_fd st' = - 1 \<or> kernel_out_fence env = Some (kms_out_fence_fd st')"
      "flags st AND DRM_MODE_ATOMIC_ALLOW_MODESET = 0 \<longrightarrow> (\<forall>x \<in> set req. plane_or_fence_item st x)"
  | (success) req evs1 evs2 nb where
      "filter is_key evs1 = []" "filter is_key evs2 = []"
      "trace st' = trace st @ evs1 @ DrmModeAtomicCommit req (flags st) 0 # evs2 @
                     DrmModeAtomicFree # released st"
      "flags st' = flags st AND NOT DRM_MODE_ATOMIC_ALLOW_MODESET \<and> bo st' = Some nb \<and>
       surface st' = surface st \<and> visible st' = visible st"
      "surface st \<longrightarrow> lock_front env = Some nb"
      "kms_in_fence_fd st' = - 1"
      "frame_count st' = frame_count st + 1"
      "kms_out_fence_fd st' = - 1 \<or> kernel_out_fence env = Some (kms_out_fence_fd st')"
      "flags st AND DRM_MODE_ATOMIC_ALLOW_MODESET = 0 \<longrightarrow> (\<forall>x \<in> set req. plane_or_fence_item st x)"
proof -
  from sw have b: "bind_api_ok env" by (auto simp: swapBuffers_def split: if_splits)
  obtain kf s1 where i: "import_kms_fence env st = Inr (kf, s1)"
    using sw b by (cases "import_kms_fence env st") (auto simp: swapBuffers_def)
  obtain s2 where x: "export_gpu_fence env (count_frame env s1) = Inr s2"
    using sw b i by (cases "export_gpu_fence env (count_frame env s1)") (auto simp: swapBuffers_def)
  obtain nbo s3 where a: "acquire_next env s2 = (nbo, s3)"
    by (cases "acquire_next env s2")
  have q1: "quiet st s1" using import_kms_fence_quiet [OF i] by simp
  have q2: "quiet s1 (count_frame env s1)" using count_frame_quiet [of s1 env] by simp
  have q3: "quiet (count_frame env s1) s2" using export_gpu_fence_quiet [OF x] by simp
  have q4: "quiet s2 s3" using acquire_next_quiet [OF a] by simp
  have q: "quiet st s3" using q1 q2 q3 q4 by (blast intro: quiet_trans)
  have f3: "kms_out_fence_fd s3 = - 1 \<and> kms_in_fence_fd s3 = dup_fd env \<and> dup_fd env \<noteq> - 1 \<and>
            frame_count s3 = frame_count st + 1"
    using import_kms_fence_quiet [OF i] count_frame_quiet [of s1 env] export_gpu_fence_quiet [OF x]
      acquire_next_quiet [OF a] by simp
  have lk: "surface st \<longrightarrow> nbo = lock_front env"
    using acquire_next_quiet [OF a] q1 q2 q3 by (simp add: quiet_def)
  show ?thesis
  proof (cases nbo)
    case None
    with sw b i x a have e: "st' = emit (Printf ''Failed to lock frontbuffer'') s3"
      by (simp add: swapBuffers_def)
    from q obtain evs where t: "trace s3 = trace st @ evs" and k: "filter is_key evs = []"
      unfolding quiet_def by blast
    show ?thesis
      by (rule skipped [OF _ k, of "''Failed to lock frontbuffer''"])
         (use q f3 t in \<open>simp_all add: e emit_def quiet_def skip_messages_def\<close>)
  next
    case (Some nb)
    obtain res s4 where g: "drm_fb_get_from_bo (addfb env) s3 nb = Inr (res, s4)"
      using sw b i x a Some by (cases "drm_fb_get_from_bo (addfb env) s3 nb") (auto simp: swapBuffers_def)
    have q5: "quiet s3 s4" using drm_fb_get_from_bo_quiet [OF g] by simp
    have q': "quiet st s4" using q q5 by (rule quiet_trans)
    have f4: "kms_out_fence_fd s4 = - 1 \<and> kms_in_fence_fd s4 = dup_fd env \<and> dup_fd env \<noteq> - 1 \<and>
            frame_count s4 = frame_count st + 1"
      using drm_fb_get_from_bo_quiet [OF g] f3 by simp
    show ?thesis
    proof (cases res)
      case None
      with sw b i x a Some g have e: "st' = emit (Printf ''Failed to get a new framebuffer BO'') (s4\<lparr>fb := None\<rparr>)"
        by (simp add: swapBuffers_def)
      from q' obtain evs where t: "trace s4 = trace st @ evs" and k: "filter is_key evs = []"
        unfolding quiet_def by blast
      show ?thesis
        by (rule skipped [OF _ k, of "''Failed to get a new framebuffer BO''"])
           (use q' f4 t in \<open>simp_all add: e emit_def quiet_def skip_messages_def\<close>)
    next
      case (Some f)
      note res = Some
      obtain s5 where w: "wait_kms_fence env kf (s4\<lparr>fb := Some f\<rparr>) = Some s5"
        using sw b i x a \<open>nbo = Some nb\<close> g res
        by (cases "wait_kms_fence env kf (s4\<lparr>fb := Some f\<rparr>)") (auto simp: swapBuffers_def)
      let ?s6 = "report_fps env s5"
      from sw b i x a \<open>nbo = Some nb\<close> g res w have p: "present env nb f ?s6 = Inr st'"
        by (simp add: swapBuffers_def)
      have q6: "quiet s4 (s4\<lparr>fb := Some f\<rparr>)" by (simp add: quiet_def)
      have q7: "quiet (s4\<lparr>fb := Some f\<rparr>) s5" using wait_kms_fence_quiet [OF w] by simp
      have q8: "quiet s5 ?s6" using report_fps_quiet [of s5 env] by simp
      have q'': "quiet st ?s6" using q' q6 q7 q8 by (blast intro: quiet_trans)
      have f6: "kms_out_fence_fd ?s6 = - 1 \<and> kms_in_fence_fd ?s6 = dup_fd env \<and> dup_fd env \<noteq> - 1 \<and>
            frame_count ?s6 = frame_count st + 1"
        using wait_kms_fence_quiet [OF w] report_fps_quiet [of s5 env] f4 by simp
      from q'' obtain evs where t: "trace ?s6 = trace st @ evs" and k: "filter is_key evs = []"
        unfolding quiet_def by blast
      from q'' have sel: "flags ?s6 = flags st" "bo ?s6 = bo st" "surface ?s6 = surface st"
        "visible ?s6 = visible st" "plane_id ?s6 = plane_id st" "crtc_id ?s6 = crtc_id st"
        "out_fence_ptr ?s6 = out_fence_ptr st"
        unfolding quiet_def by simp_all
      have rel: "released ?s6 = released st" by (simp add: released_def sel split: option.splits)
      have item: "\<And>x. plane_or_fence_item ?s6 x = plane_or_fence_item st x"
        by (simp add: plane_or_fence_item_def sel)
      from p show ?thesis
      proof (cases rule: present_cases)
        case (skipped evs' msg)
        have k': "filter is_key (evs @ evs') = []" using k skipped(2) by simp
        show ?thesis
          by (rule that(1) [OF _ k', of msg])
             (use skipped f6 sel t in \<open>auto simp add: skip_messages_def\<close>)
      next
        case (commit_failed req rc evs1 evs2)
        have k': "filter is_key (evs @ evs1) = []" using k commit_failed(2) by simp
        show ?thesis
          by (rule that(2) [OF commit_failed(1) k' commit_failed(3), of req])
             (use commit_failed f6 sel t item in \<open>auto\<close>)
      next
        case (success req evs1 evs2)
        have k': "filter is_key (evs @ evs1) = []" using k success(1) by simp
        show ?thesis
          by (rule that(3) [OF k' success(2), of req nb])
             (use success f6 sel t item rel lk \<open>nbo = Some nb\<close> in \<open>auto\<close>)
      qed
    qed
  qed
qed

section \<open>The presentation handle cache: resolving a buffer\<close>

text \<open>
  C4, as stated, fails: a buffer with a modifier whose modifier-aware creation the kernel
  refuses is resolved through the legacy retry, so resolving it twice returns the same
  handle but two kernel framebuffer-creation calls were made, not one.
\<close>

theorem C4_counterexample:
  "fst (projr (drm_fb_get_from_bo kernel_rejects_modifiers session0 3)) = Some 1 \<and>
   fst (projr (drm_fb_get_from_bo kernel_rejects_modifiers
                 (snd (projr (drm_fb_get_from_bo kernel_rejects_modifiers session0 3))) 3)) = Some 1 \<and>
   length (filter is_fb_creation
     (trace (snd (projr (drm_fb_get_from_bo kernel_rejects_modifiers
                 (snd (projr (drm_fb_get_from_bo kernel_rejects_modifiers session0 3))) 3))))) = 2"
  by (simp add: fb_defs plane_arrays_def DRM_MODE_FB_MODIFIERS_def session0_def constructed_def
      kernel_rejects_modifiers_def tiled_bo_def)

text \<open>
  C4, amended: for a buffer that carries no handle yet and whose first resolve succeeds,
  a second resolve returns the identical handle and leaves the whole state, trace
  included, as it is (a cache hit: no kernel call, whatever the kernel would answer). The
  first resolve made one kernel creation call when the modifier-aware creation succeeded
  and two when it fell back to the legacy path; exactly one of them succeeded.
\<close>

theorem C4_second_resolve_is_cache_hit:
  assumes fresh: "user_data (bo_mem st b) = None"
    and first: "drm_fb_get_from_bo k1 st b = Inr (Some f, st1)"
  shows "drm_fb_get_from_bo k2 st1 b = Inr (Some f, st1) \<and>
         length (filter is_fb_creation (events_since st st1)) =
           (if fst (addfb2_with_modifiers k1) = 0 then 1 else 2) \<and>
         length (filter fb_creation_ok (events_since st st1)) = 1"
proof -
  obtain hs ss os ms where pa: "plane_arrays (bo_mem st b) = (hs, ss, os, ms)"
    using prod_cases4 by blast
  obtain r1 i1 where k1: "addfb2_with_modifiers k1 = (r1, i1)" by (cases "addfb2_with_modifiers k1")
  obtain r2 i2 where k2: "addfb2 k1 = (r2, i2)" by (cases "addfb2 k1")
  from first fresh have c: "create_fb k1 st b = Inr (Some f, st1)"
    by (simp add: drm_fb_get_from_bo_def)
  show ?thesis
  proof (cases "r1 = 0")
    case True
    with c show ?thesis
      by (auto simp add: fb_defs pa k1 k2 events_since_def split: if_splits)
  next
    case False
    with c show ?thesis
      by (auto simp add: fb_defs pa k1 k2 events_since_def split: if_splits)
  qed
qed

theorem C4_second_resolve_is_cache_hit_witness:
  "user_data (bo_mem session0 3) = None \<and>
   drm_fb_get_from_bo kernel_rejects_modifiers session0 3 =
     Inr (Some 1, snd (projr (drm_fb_get_from_bo kernel_rejects_modifiers session0 3))) \<and>
   drm_fb_get_from_bo kernel_rejects_all
       (snd (projr (drm_fb_get_from_bo kernel_rejects_modifiers session0 3))) 3 =
     Inr (Some 1, snd (projr (drm_fb_get_from_bo kernel_rejects_modifiers session0 3))) \<and>
   length (filter fb_creation_ok
     (events_since session0
        (snd (projr (drm_fb_get_from_bo kernel_rejects_modifiers session0 3))))) = 1"
proof -
  have h1: "user_data (bo_mem session0 3) = None"
    by (simp add: session0_def constructed_def tiled_bo_def)
  have h2: "drm_fb_get_from_bo kernel_rejects_modifiers session0 3 =
     Inr (Some 1, snd (projr (drm_fb_get_from_bo kernel_rejects_modifiers session0 3)))"
    by (simp add: fb_defs plane_arrays_def DRM_MODE_FB_MODIFIERS_def session0_def constructed_def
        kernel_rejects_modifiers_def tiled_bo_def)
  from C4_second_resolve_is_cache_hit [OF h1 h2, of kernel_rejects_all] h1 h2
  show ?thesis by blast
qed

text \<open>
  C5: a buffer with a non-zero modifier that carries no handle yet is first tried with
  \<^verbatim>\<open>drmModeAddFB2WithModifiers\<close> and the modifiers flag. When the kernel refuses, the
  warning goes to stderr and the legacy \<^verbatim>\<open>drmModeAddFB2\<close> is tried; when that is refused
  too, the result is NULL, the record allocated for the handle has been freed and is no
  longer in memory, and the buffer is left without a handle. A \<^verbatim>\<open>swapBuffers\<close> call whose
  resolve returns NULL logs the failure and returns there: the frame is skipped.
\<close>

theorem C5_modifier_fallback:
  assumes nz: "bo_modifier (bo_mem st b) \<noteq> 0"
    and fresh: "user_data (bo_mem st b) = None"
    and planes: "length (bo_planes (bo_mem st b)) \<le> 4"
  shows "(\<exists>res st' evs.
     drm_fb_get_from_bo k st b = Inr (res, st') \<and>
     trace st' = trace st @
       [Calloc (next_fb st), Printf ''Using modifier'',
        modifier_attempt (bo_mem st b) (fst (addfb2_with_modifiers k))] @ evs \<and>
     (if fst (addfb2_with_modifiers k) = 0 then
        res = Some (next_fb st) \<and> evs = [GbmBoSetUserData b (next_fb st)]
      else if fst (addfb2 k) = 0 then
        res = Some (next_fb st) \<and>
        evs = [Fprintf_stderr ''Modifiers failed!'',
               legacy_attempt (bo_mem st b) (fst (addfb2 k)),
               GbmBoSetUserData b (next_fb st)]
      else
        res = None \<and>
        evs = [Fprintf_stderr ''Modifiers failed!'',
               legacy_attempt (bo_mem st b) (fst (addfb2 k)),
               Printf ''failed to create fb'', Free (next_fb st)] \<and>
        fb_mem st' = (fb_mem st)(next_fb st := None) \<and>
        bo_mem st' = bo_mem st)) \<and>
    (\<forall>env s kf s1 s2 nb s3 s4.
       bind_api_ok env \<and> import_kms_fence env s = Inr (kf, s1) \<and>
       export_gpu_fence env (count_frame env s1) = Inr s2 \<and>
       acquire_next env s2 = (Some nb, s3) \<and>
       drm_fb_get_from_bo (addfb env) s3 nb = Inr (None, s4) \<longrightarrow>
       swapBuffers env s =
         Some (Inr (emit (Printf ''Failed to get a new framebuffer BO'') (s4\<lparr>fb := None\<rparr>))))"
proof -
  have skip: "\<forall>env s kf s1 s2 nb s3 s4.
       bind_api_ok env \<and> import_kms_fence env s = Inr (kf, s1) \<and>
       export_gpu_fence env (count_frame env s1) = Inr s2 \<and>
       acquire_next env s2 = (Some nb, s3) \<and>
       drm_fb_get_from_bo (addfb env) s3 nb = Inr (None, s4) \<longrightarrow>
       swapBuffers env s =
         Some (Inr (emit (Printf ''Failed to get a new framebuffer BO'') (s4\<lparr>fb := None\<rparr>)))"
    by (simp add: swapBuffers_def)
  obtain hs ss os ms where pa: "plane_arrays (bo_mem st b) = (hs, ss, os, ms)"
    using prod_cases4 by blast
  have m0: "ms ! 0 \<noteq> 0" using plane_arrays_modifier0 [OF pa] nz by simp
  obtain r1 i1 where k1: "addfb2_with_modifiers k = (r1, i1)" by (cases "addfb2_with_modifiers k")
  obtain r2 i2 where k2: "addfb2 k = (r2, i2)" by (cases "addfb2 k")
  have fl: "DRM_MODE_FB_MODIFIERS \<noteq> 0" by (simp add: DRM_MODE_FB_MODIFIERS_def)
  have not4: "\<not> 4 < length (bo_planes (bo_mem st b))" using planes by simp
  have resolve: "\<exists>res st' evs.
     drm_fb_get_from_bo k st b = Inr (res, st') \<and>
     trace st' = trace st @
       [Calloc (next_fb st), Printf ''Using modifier'',
        modifier_attempt (bo_mem st b) (fst (addfb2_with_modifiers k))] @ evs \<and>
     (if fst (addfb2_with_modifiers k) = 0 then
        res = Some (next_fb st) \<and> evs = [GbmBoSetUserData b (next_fb st)]
      else if fst (addfb2 k) = 0 then
        res = Some (next_fb st) \<and>
        evs = [Fprintf_stderr ''Modifiers failed!'',
               legacy_attempt (bo_mem st b) (fst (addfb2 k)),
               GbmBoSetUserData b (next_fb st)]
      else
        res = None \<and>
        evs = [Fprintf_stderr ''Modifiers failed!'',
               legacy_attempt (bo_mem st b) (fst (addfb2 k)),
               Printf ''failed to create fb'', Free (next_fb st)] \<and>
        fb_mem st' = (fb_mem st)(next_fb st := None) \<and>
        bo_mem st' = bo_mem st)"
  proof (cases "r1 = 0")
    case True
    then show ?thesis
      using fresh not4 m0 fl
      by (simp add: fb_defs pa k1 k2 modifier_attempt_def legacy_attempt_def)
  next
    case False
    then show ?thesis
      using fresh not4 m0 fl
      by (cases "r2 = 0") (simp_all add: fb_defs pa k1 k2 modifier_attempt_def legacy_attempt_def)
  qed
  from resolve skip show ?thesis by (rule conjI)
qed

theorem C5_modifier_fallback_witness:
  "bo_modifier (bo_mem session0 3) \<noteq> 0 \<and>
   user_data (bo_mem session0 3) = None \<and>
   length (bo_planes (bo_mem session0 3)) \<le> 4 \<and>
   (\<exists>st'. drm_fb_get_from_bo kernel_rejects_all session0 3 = Inr (None, st') \<and>
      trace st' =
        [Calloc 1, Printf ''Using modifier'', modifier_attempt tiled_bo (- 22),
         Fprintf_stderr ''Modifiers failed!'', legacy_attempt tiled_bo (- 22),
         Printf ''failed to create fb'', Free 1] \<and>
      fb_mem st' = Map.empty)"
proof -
  have h1: "bo_modifier (bo_mem session0 3) \<noteq> 0"
    by (simp add: session0_def constructed_def tiled_bo_def)
  have h2: "user_data (bo_mem session0 3) = None"
    by (simp add: session0_def constructed_def tiled_bo_def)
  have h3: "length (bo_planes (bo_mem session0 3)) \<le> 4"
    by (simp add: session0_def constructed_def tiled_bo_def)
  from conjunct1 [OF C5_modifier_fallback [OF h1 h2 h3, of kernel_rejects_all]]
  have "\<exists>st'. drm_fb_get_from_bo kernel_rejects_all session0 3 = Inr (None, st') \<and>
      trace st' =
        [Calloc 1, Printf ''Using modifier'', modifier_attempt tiled_bo (- 22),
         Fprintf_stderr ''Modifiers failed!'', legacy_attempt tiled_bo (- 22),
         Printf ''failed to create fb'', Free 1] \<and>
      fb_mem st' = Map.empty"
    by (auto simp add: kernel_rejects_all_def session0_def constructed_def)
  with h1 h2 h3 show ?thesis by blast
qed

section \<open>One call of swapBuffers\<close>

lemma no_key_events:
  assumes "filter is_key evs = []"
  shows "filter is_release evs = []" "filter is_commit evs = []" "filter is_rmfb evs = []"
    "Drawable_show \<notin> set evs"
  using assms by (auto simp: filter_empty_conv is_key_def)

lemma released_not_commit: "filter is_commit (released st) = []" "filter is_rmfb (released st) = []"
  "Drawable_show \<notin> set (released st)" "filter is_release (released st) = released st"
  by (simp_all add: released_def split: option.splits)

lemma last_released: "last (DrmModeAtomicFree # released st) = DrmModeAtomicFree \<or>
   (\<exists>b. last (DrmModeAtomicFree # released st) = GbmSurfaceReleaseBuffer b)"
  by (simp add: released_def split: option.splits)

lemmas session_defs = session0_def constructed_def tiled_bo_def frame_ok_def frame_lock_fails_def
  frame_commit_fails_def kernel_accepts_def

lemmas swap_defs = swapBuffers_def import_kms_fence_def count_frame_def export_gpu_fence_def
  acquire_next_def wait_kms_fence_def report_fps_def present_def finish_frame_def
  drm_atomic_commit_def modeset_block_def fence_block_def kernel_commit_def plane_values_def
  add_plane_property_def add_crtc_property_def add_connector_property_def
  drmModeAtomicAddProperty_def fb_defs plane_arrays_def
  DRM_MODE_FB_MODIFIERS_def DRM_MODE_ATOMIC_NONBLOCK_def DRM_MODE_ATOMIC_ALLOW_MODESET_def
  EINVAL_def EGL_CONDITION_SATISFIED_KHR_def EGL_NO_NATIVE_FENCE_FD_ANDROID_def NUM_BUFFERS_def
  NSEC_PER_SEC_def

text \<open>
  C7: a call of \<^verbatim>\<open>swapBuffers\<close> that returns after logging one of the three recoverable
  per-frame failures (no front buffer, no framebuffer for the buffer, commit refused)
  leaves the recorded displayed buffer as it was, releases no buffer, and has advanced
  the frame counter by one.
\<close>

theorem C7_failed_frame_leaves_buffers:
  assumes sw: "swapBuffers env st = Some (Inr st')"
    and failed: "per_frame_failure (events_since st st')"
  shows "bo st' = bo st \<and> filter is_release (events_since st st') = [] \<and>
         frame_count st' = frame_count st + 1"
  using sw
proof (cases rule: swapBuffers_cases)
  case (skipped evs msg)
  then show ?thesis by (simp add: events_since_def no_key_events)
next
  case (commit_failed req rc evs1 evs2)
  then show ?thesis by (simp add: events_since_def no_key_events)
next
  case (success req evs1 evs2 nb)
  from success(3) have "last (events_since st st') = last (DrmModeAtomicFree # released st)"
    by (simp add: events_since_def)
  with last_released [of st] failed show ?thesis
    by (auto simp: per_frame_failure_def)
qed

theorem C7_failed_frame_leaves_buffers_witness:
  "swapBuffers frame_lock_fails session0 =
     Some (Inr (projr (the (swapBuffers frame_lock_fails session0)))) \<and>
   per_frame_failure (events_since session0 (projr (the (swapBuffers frame_lock_fails session0)))) \<and>
   bo (projr (the (swapBuffers frame_lock_fails session0))) = None \<and>
   frame_count (projr (the (swapBuffers frame_lock_fails session0))) = 1"
proof -
  have h1: "swapBuffers frame_lock_fails session0 =
     Some (Inr (projr (the (swapBuffers frame_lock_fails session0))))"
    by (simp add: swap_defs session_defs)
  have h2: "per_frame_failure (events_since session0 (projr (the (swapBuffers frame_lock_fails session0))))"
    by (simp add: swap_defs session_defs per_frame_failure_def events_since_def)
  from C7_failed_frame_leaves_buffers [OF h1 h2] have
    "bo (projr (the (swapBuffers frame_lock_fails session0))) = None \<and>
     frame_count (projr (the (swapBuffers frame_lock_fails session0))) = 1"
    by (simp add: session0_def constructed_def)
  with h1 h2 show ?thesis by blast
qed

lemma key_event_mem:
  assumes "filter is_key evs = []"
  shows "DrmModeAtomicCommit req fl rc \<notin> set evs" "GbmSurfaceReleaseBuffer b \<notin> set evs"
    "DrmModeRmFB i \<notin> set evs"
  using assms by (auto simp: filter_empty_conv is_key_def)

lemma released_mem: "DrmModeAtomicCommit req fl rc \<notin> set (released st)"
  by (simp add: released_def split: option.splits)

text \<open>
  The fence fds at the return of a call: the stored output-fence fd is \<open>-1\<close> as soon as
  the fence has been imported, and at the return it is \<open>-1\<close> or the value the kernel
  stored during this call's commit. The stored input-fence fd is \<open>-1\<close> at the return
  exactly when the kernel accepted a commit in this call; otherwise it still holds the fd
  exported for this frame.
\<close>

lemma fence_fds_after_swap:
  assumes sw: "swapBuffers env st = Some (Inr st')"
  shows "(\<forall>kf s1. import_kms_fence env st = Inr (kf, s1) \<longrightarrow> kms_out_fence_fd s1 = - 1) \<and>
         (kms_out_fence_fd st' = - 1 \<or>
            (\<exists>req fl rc. DrmModeAtomicCommit req fl rc \<in> set (events_since st st')) \<and>
            kernel_out_fence env = Some (kms_out_fence_fd st')) \<and>
         (kms_in_fence_fd st' = - 1 \<longleftrightarrow>
            (\<exists>req fl. DrmModeAtomicCommit req fl 0 \<in> set (events_since st st'))) \<and>
         (kms_in_fence_fd st' \<noteq> - 1 \<longrightarrow> kms_in_fence_fd st' = dup_fd env)"
proof -
  have imp: "\<forall>kf s1. import_kms_fence env st = Inr (kf, s1) \<longrightarrow> kms_out_fence_fd s1 = - 1"
    using import_kms_fence_quiet by blast
  from sw have "(kms_out_fence_fd st' = - 1 \<or>
            (\<exists>req fl rc. DrmModeAtomicCommit req fl rc \<in> set (events_since st st')) \<and>
            kernel_out_fence env = Some (kms_out_fence_fd st')) \<and>
         (kms_in_fence_fd st' = - 1 \<longleftrightarrow>
            (\<exists>req fl. DrmModeAtomicCommit req fl 0 \<in> set (events_since st st'))) \<and>
         (kms_in_fence_fd st' \<noteq> - 1 \<longrightarrow> kms_in_fence_fd st' = dup_fd env)"
  proof (cases rule: swapBuffers_cases)
    case (skipped evs msg)
    then show ?thesis by (simp add: events_since_def key_event_mem)
  next
    case (commit_failed req rc evs1 evs2)
    have "DrmModeAtomicCommit req (flags st) rc \<in> set (events_since st st')"
      using commit_failed(4) by (simp add: events_since_def)
    then have ex: "\<exists>req fl rc. DrmModeAtomicCommit req fl rc \<in> set (events_since st st')" by blast
    have no: "\<And>r f. DrmModeAtomicCommit r f 0 \<notin> set (events_since st st')"
      using commit_failed(1,2,3,4) by (auto simp add: events_since_def key_event_mem)
    from commit_failed(6,8) ex no show ?thesis by auto
  next
    case (success req evs1 evs2 nb)
    have "DrmModeAtomicCommit req (flags st) 0 \<in> set (events_since st st')"
      using success(3) by (simp add: events_since_def)
    with success(6,8) show ?thesis by auto
  qed
  with imp show ?thesis by blast
qed

section \<open>Sessions\<close>

lemma skip_not_commit:
  assumes "\<not> is_commit e"
  shows "no_modeset (e # es) = no_modeset es"
    and "modeset_until_first_success (e # es) = modeset_until_first_success es"
  using assms by (cases e; simp)+

lemma skip_unarmed:
  assumes "\<not> is_commit e" and "e \<noteq> Drawable_show"
  shows "armed_after a (e # es) = armed_after a es"
    and "modeset_only_armed a (e # es) = modeset_only_armed a es"
  using assms by (cases e; simp)+

lemma at_commit:
  "no_modeset (DrmModeAtomicCommit req fl rc # es) = (\<not> has_modeset fl \<and> no_modeset es)"
  "modeset_until_first_success (DrmModeAtomicCommit req fl rc # es) =
     (has_modeset fl \<and> (if rc = 0 then no_modeset es else modeset_until_first_success es))"
  "armed_after a (DrmModeAtomicCommit req fl rc # es) = armed_after (a \<and> rc \<noteq> 0) es"
  "modeset_only_armed a (DrmModeAtomicCommit req fl rc # es) =
     ((has_modeset fl \<longrightarrow> a) \<and> modeset_only_armed (a \<and> rc \<noteq> 0) es)"
  by simp_all

lemma at_show:
  "armed_after a (Drawable_show # es) = armed_after True es"
  "modeset_only_armed a (Drawable_show # es) = modeset_only_armed True es"
  by simp_all

declare no_modeset.simps(2) [simp del]
declare modeset_until_first_success.simps(2) [simp del]
declare armed_after.simps(2) [simp del]
declare modeset_only_armed.simps(2) [simp del]

lemma skip_no_commits:
  assumes "filter is_commit evs = []"
  shows "no_modeset (evs @ es) = no_modeset es"
    and "modeset_until_first_success (evs @ es) = modeset_until_first_success es"
  using assms
  by (induction evs) (simp_all add: skip_not_commit split: if_splits)

lemma skip_no_commits_armed:
  assumes "filter is_commit evs = []" and "Drawable_show \<notin> set evs"
  shows "armed_after a (evs @ es) = armed_after a es"
    and "modeset_only_armed a (evs @ es) = modeset_only_armed a es"
  using assms
  by (induction evs) (simp_all add: skip_unarmed split: if_splits)

lemma has_modeset_cleared: "\<not> has_modeset (fl AND NOT DRM_MODE_ATOMIC_ALLOW_MODESET)"
  by (simp add: has_modeset_def and.assoc)


lemma show_cases:
  obtains (unchanged) evs where "trace (show env st) = trace st @ evs" "filter is_key evs = []"
      "flags (show env st) = flags st" "visible (show env st) = visible st"
      "visible st \<or> \<not> has_native_fence_sync env \<or> \<not> procs_available env"
  | (completed) "trace (show env st) = trace st @ [EglWaitClient, EglWaitNative, Drawable_show]"
      "flags (show env st) = flags st OR DRM_MODE_ATOMIC_ALLOW_MODESET"
      "visible (show env st) = visible_after_base_show env"
      "\<not> visible st" "has_native_fence_sync env" "procs_available env"
proof (cases "visible st \<or> \<not> has_native_fence_sync env \<or> \<not> procs_available env")
  case True
  let ?evs = "drop (length (trace st)) (trace (show env st))"
  from True have "trace (show env st) = trace st @ ?evs" "filter is_key ?evs = []"
      "flags (show env st) = flags st" "visible (show env st) = visible st"
    by (auto simp: show_def emit_def is_key_def)
  with True show ?thesis by (rule_tac unchanged)
next
  case False
  then show ?thesis by (intro completed) (simp_all add: show_def emit_def)
qed

text \<open>What one call contributes to the commits of a session.\<close>

lemma swap_commits:
  assumes sw: "swapBuffers env st = Some (Inr st')"
  obtains (none) evs where "trace st' = trace st @ evs" "filter is_commit evs = []"
      "Drawable_show \<notin> set evs" "flags st' = flags st" "visible st' = visible st"
  | (refused) evs1 evs2 req rc where "trace st' = trace st @ evs1 @ DrmModeAtomicCommit req (flags st) rc # evs2"
      "rc \<noteq> 0" "filter is_commit evs1 = []" "Drawable_show \<notin> set evs1"
      "filter is_commit evs2 = []" "Drawable_show \<notin> set evs2"
      "flags st' = flags st" "visible st' = visible st"
  | (accepted) evs1 evs2 req where "trace st' = trace st @ evs1 @ DrmModeAtomicCommit req (flags st) 0 # evs2"
      "filter is_commit evs1 = []" "Drawable_show \<notin> set evs1"
      "filter is_commit evs2 = []" "Drawable_show \<notin> set evs2"
      "flags st' = flags st AND NOT DRM_MODE_ATOMIC_ALLOW_MODESET" "visible st' = visible st"
  using sw
proof (cases rule: swapBuffers_cases)
  case (skipped evs msg)
  show ?thesis
    by (rule none [of "evs @ [Printf msg]"]) (use skipped in \<open>simp_all add: no_key_events\<close>)
next
  case (commit_failed req rc evs1 evs2)
  show ?thesis
    by (rule refused [of evs1 req rc "evs2 @ [Printf ''failed to commit'']"])
       (use commit_failed in \<open>simp_all add: no_key_events\<close>)
next
  case (success req evs1 evs2 nb)
  show ?thesis
    by (rule accepted [of evs1 req "evs2 @ DrmModeAtomicFree # released st"])
       (use success in \<open>simp_all add: no_key_events released_not_commit\<close>)
qed

lemma run_modeset_only_armed:
  assumes "run cs st = Some (Inr st')" and "has_modeset (flags st) \<longrightarrow> a"
  shows "\<exists>evs. trace st' = trace st @ evs \<and> modeset_only_armed a evs \<and>
           (has_modeset (flags st') \<longrightarrow> armed_after a evs)"
  using assms
proof (induction cs arbitrary: st a)
  case Nil
  then show ?case by simp
next
  case (Cons c cs)
  show ?case
  proof (cases c)
    case (Show env)
    with Cons.prems have r: "run cs (show env st) = Some (Inr st')" by simp
    show ?thesis
    proof (cases rule: show_cases [of env st])
      case (unchanged evs)
      from Cons.IH [OF r, of a] unchanged(3) Cons.prems(2)
      obtain evs' where e: "trace st' = trace (show env st) @ evs'" "modeset_only_armed a evs'"
        "has_modeset (flags st') \<longrightarrow> armed_after a evs'" by auto
      have "trace st' = trace st @ (evs @ evs')" using e(1) unchanged(1) by simp
      moreover have "modeset_only_armed a (evs @ evs')" "armed_after a (evs @ evs') = armed_after a evs'"
        using e(2) unchanged(2) by (simp_all add: skip_no_commits_armed no_key_events)
      ultimately show ?thesis using e(3) by metis
    next
      case completed
      from Cons.IH [OF r, of True]
      obtain evs' where e: "trace st' = trace (show env st) @ evs'" "modeset_only_armed True evs'"
        "has_modeset (flags st') \<longrightarrow> armed_after True evs'" by auto
      let ?evs = "[EglWaitClient, EglWaitNative, Drawable_show] @ evs'"
      have "trace st' = trace st @ ?evs" using e(1) completed(1) by simp
      moreover have "modeset_only_armed a ?evs" "armed_after a ?evs = armed_after True evs'"
        using e(2) by (simp_all add: skip_unarmed at_show)
      ultimately show ?thesis using e(3) by metis
    qed
  next
    case (SwapBuffers env)
    with Cons.prems obtain s1 where sw: "swapBuffers env st = Some (Inr s1)"
      and r: "run cs s1 = Some (Inr st')"
      by (auto split: option.splits sum.splits)
    from sw show ?thesis
    proof (cases rule: swap_commits)
      case (none evs)
      from Cons.IH [OF r, of a] none(4) Cons.prems(2)
      obtain evs' where e: "trace st' = trace s1 @ evs'" "modeset_only_armed a evs'"
        "has_modeset (flags st') \<longrightarrow> armed_after a evs'" by auto
      have "trace st' = trace st @ (evs @ evs')" using e(1) none(1) by simp
      moreover have "modeset_only_armed a (evs @ evs')" "armed_after a (evs @ evs') = armed_after a evs'"
        using e(2) none(2,3) by (simp_all add: skip_no_commits_armed)
      ultimately show ?thesis using e(3) by metis
    next
      case (refused evs1 evs2 req rc)
      from Cons.IH [OF r, of a] refused(7) Cons.prems(2)
      obtain evs' where e: "trace st' = trace s1 @ evs'" "modeset_only_armed a evs'"
        "has_modeset (flags st') \<longrightarrow> armed_after a evs'" by auto
      let ?evs = "evs1 @ DrmModeAtomicCommit req (flags st) rc # evs2 @ evs'"
      have "trace st' = trace st @ ?evs" using e(1) refused(1) by simp
      moreover have "modeset_only_armed a ?evs" "armed_after a ?evs = armed_after a evs'"
        using e(2) refused(2-6) Cons.prems(2) by (simp_all add: skip_no_commits_armed at_commit)
      ultimately show ?thesis using e(3) by metis
    next
      case (accepted evs1 evs2 req)
      have "\<not> has_modeset (flags s1)" using accepted(6) by (simp add: has_modeset_cleared)
      with Cons.IH [OF r, of False]
      obtain evs' where e: "trace st' = trace s1 @ evs'" "modeset_only_armed False evs'"
        "has_modeset (flags st') \<longrightarrow> armed_after False evs'" by auto
      let ?evs = "evs1 @ DrmModeAtomicCommit req (flags st) 0 # evs2 @ evs'"
      have "trace st' = trace st @ ?evs" using e(1) accepted(1) by simp
      moreover have "modeset_only_armed a ?evs" "armed_after a ?evs = armed_after False evs'"
        using e(2) accepted(2-5) Cons.prems(2) by (simp_all add: skip_no_commits_armed at_commit)
      ultimately show ?thesis using e(3) by metis
    qed
  qed
qed


lemma run_without_show:
  assumes "run cs st = Some (Inr st')" and "\<not> has_modeset (flags st)"
    and "\<forall>c \<in> set cs. \<forall>env. c = Show env \<longrightarrow> \<not> has_native_fence_sync env \<or> \<not> procs_available env"
  shows "\<exists>evs. trace st' = trace st @ evs \<and> no_modeset evs \<and> \<not> has_modeset (flags st')"
  using assms
proof (induction cs arbitrary: st)
  case Nil
  then show ?case by simp
next
  case (Cons c cs)
  from Cons.prems(3) have rest:
    "\<forall>c \<in> set cs. \<forall>env. c = Show env \<longrightarrow> \<not> has_native_fence_sync env \<or> \<not> procs_available env"
    by simp
  show ?case
  proof (cases c)
    case (Show env)
    with Cons.prems have r: "run cs (show env st) = Some (Inr st')"
      and inc: "\<not> has_native_fence_sync env \<or> \<not> procs_available env" by simp_all
    show ?thesis
    proof (cases rule: show_cases [of env st])
      case (unchanged evs)
      from Cons.IH [OF r _ rest] unchanged(3) Cons.prems(2)
      obtain evs' where e: "trace st' = trace (show env st) @ evs'" "no_modeset evs'"
        "\<not> has_modeset (flags st')" by auto
      have "trace st' = trace st @ (evs @ evs')" using e(1) unchanged(1) by simp
      moreover have "no_modeset (evs @ evs')"
        using e(2) unchanged(2) by (simp add: skip_no_commits no_key_events)
      ultimately show ?thesis using e(3) by blast
    next
      case completed
      with inc show ?thesis by simp
    qed
  next
    case (SwapBuffers env)
    with Cons.prems obtain s1 where sw: "swapBuffers env st = Some (Inr s1)"
      and r: "run cs s1 = Some (Inr st')"
      by (auto split: option.splits sum.splits)
    from sw show ?thesis
    proof (cases rule: swap_commits)
      case (none evs)
      from Cons.IH [OF r _ rest] none(4) Cons.prems(2)
      obtain evs' where e: "trace st' = trace s1 @ evs'" "no_modeset evs'"
        "\<not> has_modeset (flags st')" by auto
      have "trace st' = trace st @ (evs @ evs')" using e(1) none(1) by simp
      moreover have "no_modeset (evs @ evs')" using e(2) none(2) by (simp add: skip_no_commits)
      ultimately show ?thesis using e(3) by blast
    next
      case (refused evs1 evs2 req rc)
      from Cons.IH [OF r _ rest] refused(7) Cons.prems(2)
      obtain evs' where e: "trace st' = trace s1 @ evs'" "no_modeset evs'"
        "\<not> has_modeset (flags st')" by auto
      let ?evs = "evs1 @ DrmModeAtomicCommit req (flags st) rc # evs2 @ evs'"
      have "trace st' = trace st @ ?evs" using e(1) refused(1) by simp
      moreover have "no_modeset ?evs"
        using e(2) refused(3,5) Cons.prems(2) by (simp add: skip_no_commits at_commit)
      ultimately show ?thesis using e(3) by blast
    next
      case (accepted evs1 evs2 req)
      have "\<not> has_modeset (flags s1)" using accepted(6) by (simp add: has_modeset_cleared)
      from Cons.IH [OF r this rest]
      obtain evs' where e: "trace st' = trace s1 @ evs'" "no_modeset evs'"
        "\<not> has_modeset (flags st')" by auto
      let ?evs = "evs1 @ DrmModeAtomicCommit req (flags st) 0 # evs2 @ evs'"
      have "trace st' = trace st @ ?evs" using e(1) accepted(1) by simp
      moreover have "no_modeset ?evs"
        using e(2) accepted(2,4) Cons.prems(2) by (simp add: skip_no_commits at_commit)
      ultimately show ?thesis using e(3) by blast
    qed
  qed
qed

lemma swaps_keep_buffer:
  assumes "run (map SwapBuffers envs) st = Some (Inr st')" and "surface st" and "bo st \<noteq> Some b"
    and "\<forall>e \<in> set envs. lock_front e \<noteq> Some b"
  shows "\<exists>evs. trace st' = trace st @ evs \<and> GbmSurfaceReleaseBuffer b \<notin> set evs \<and>
           bo st' \<noteq> Some b"
  using assms
proof (induction envs arbitrary: st)
  case Nil
  then show ?case by simp
next
  case (Cons env envs)
  from Cons.prems(1) obtain s1 where sw: "swapBuffers env st = Some (Inr s1)"
    and r: "run (map SwapBuffers envs) s1 = Some (Inr st')"
    by (auto split: option.splits sum.splits)
  from Cons.prems(4) have rest: "\<forall>e \<in> set envs. lock_front e \<noteq> Some b"
    and this_one: "lock_front env \<noteq> Some b" by simp_all
  have rel: "GbmSurfaceReleaseBuffer b \<notin> set (released st)"
    using Cons.prems(3) by (auto simp: released_def split: option.splits)
  from sw obtain evs where t: "trace s1 = trace st @ evs" and n: "GbmSurfaceReleaseBuffer b \<notin> set evs"
    and b1: "bo s1 \<noteq> Some b" and s1: "surface s1"
  proof (cases rule: swapBuffers_cases)
    case (skipped evs msg)
    show ?thesis
      by (rule that [of "evs @ [Printf msg]"])
         (use skipped Cons.prems(2,3) in \<open>simp_all add: key_event_mem\<close>)
  next
    case (commit_failed req rc evs1 evs2)
    show ?thesis
      by (rule that [of "evs1 @ DrmModeAtomicCommit req (flags st) rc # evs2 @ [Printf ''failed to commit'']"])
         (use commit_failed Cons.prems(2,3) in \<open>simp_all add: key_event_mem\<close>)
  next
    case (success req evs1 evs2 nb)
    show ?thesis
      by (rule that [of "evs1 @ DrmModeAtomicCommit req (flags st) 0 # evs2 @ DrmModeAtomicFree # released st"])
         (use success Cons.prems(2,3) this_one rel in \<open>auto simp add: key_event_mem\<close>)
  qed
  from Cons.IH [OF r s1 b1 rest] obtain evs' where e: "trace st' = trace s1 @ evs'"
    "GbmSurfaceReleaseBuffer b \<notin> set evs'" "bo st' \<noteq> Some b" by blast
  have "trace st' = trace st @ (evs @ evs')" using e(1) t by simp
  moreover have "GbmSurfaceReleaseBuffer b \<notin> set (evs @ evs')" using n e(2) by simp
  ultimately show ?case using e(3) by blast
qed

lemmas run_defs = swap_defs session_defs show_def show_ok_def show_without_fence_sync_def
  frame_next_ok_def client_wait_loop.simps events_since_def

lemma returned: "x = Some (Inr s) \<Longrightarrow> x = Some (Inr (projr (the x)))"
  by simp

section \<open>The mode-set flag over a session\<close>









section \<open>Buffers of skipped frames\<close>

text \<open>
  With a chain surface, a call that locks the front buffer \<open>b\<close> and returns without an
  accepted commit releases no buffer and leaves the member \<^verbatim>\<open>bo\<close> as it was; in the calls
  that follow, as long as the surface does not hand out \<open>b\<close> again (it is still locked),
  \<open>b\<close> is never released and never becomes the displayed buffer. In every call, the
  releases are none, or after an accepted commit the value the member \<^verbatim>\<open>bo\<close> had when
  the call began.
\<close>

lemma skipped_frame_keeps_locked_buffer:
  assumes chain: "surface st" and locked: "lock_front env = Some b" and other: "bo st \<noteq> Some b"
    and sw: "swapBuffers env st = Some (Inr st1)"
    and skipped: "\<forall>req fl. DrmModeAtomicCommit req fl 0 \<notin> set (events_since st st1)"
    and later: "run (map SwapBuffers envs) st1 = Some (Inr st2)"
    and fresh: "\<forall>e \<in> set envs. lock_front e \<noteq> Some b"
  shows "filter is_release (events_since st st1) = [] \<and> bo st1 = bo st \<and>
         GbmSurfaceReleaseBuffer b \<notin> set (events_since st1 st2) \<and> bo st2 \<noteq> Some b \<and>
         (\<forall>env' s s'. swapBuffers env' s = Some (Inr s') \<longrightarrow>
            filter is_release (events_since s s') = [] \<or>
            (\<exists>pre req fl post.
               events_since s s' = pre @ DrmModeAtomicCommit req fl 0 # post \<and>
               filter is_release pre = [] \<and> filter is_release post = released s))"
proof -
  from sw have first: "filter is_release (events_since st st1) = [] \<and> bo st1 = bo st \<and> surface st1"
  proof (cases rule: swapBuffers_cases)
    case (skipped evs msg)
    with chain show ?thesis by (simp add: events_since_def no_key_events)
  next
    case (commit_failed req rc evs1 evs2)
    with chain show ?thesis by (simp add: events_since_def no_key_events)
  next
    case (success req evs1 evs2 nb)
    have "DrmModeAtomicCommit req (flags st) 0 \<in> set (events_since st st1)"
      using success(3) by (simp add: events_since_def)
    with skipped show ?thesis by blast
  qed
  with other have b1: "bo st1 \<noteq> Some b" and s1: "surface st1" by simp_all
  from swaps_keep_buffer [OF later s1 b1 fresh] have rest:
    "GbmSurfaceReleaseBuffer b \<notin> set (events_since st1 st2) \<and> bo st2 \<noteq> Some b"
    by (auto simp: events_since_def)
  have each: "\<forall>env' s s'. swapBuffers env' s = Some (Inr s') \<longrightarrow>
            filter is_release (events_since s s') = [] \<or>
            (\<exists>pre req fl post.
               events_since s s' = pre @ DrmModeAtomicCommit req fl 0 # post \<and>
               filter is_release pre = [] \<and> filter is_release post = released s)"
  proof (intro allI impI)
    fix env' s s' assume "swapBuffers env' s = Some (Inr s')"
    then show "filter is_release (events_since s s') = [] \<or>
            (\<exists>pre req fl post.
               events_since s s' = pre @ DrmModeAtomicCommit req fl 0 # post \<and>
               filter is_release pre = [] \<and> filter is_release post = released s)"
    proof (cases rule: swapBuffers_cases)
      case (skipped evs msg)
      then show ?thesis by (simp add: events_since_def no_key_events)
    next
      case (commit_failed req rc evs1 evs2)
      then show ?thesis by (simp add: events_since_def no_key_events)
    next
      case (success req evs1 evs2 nb)
      have "events_since s s' = evs1 @ DrmModeAtomicCommit req (flags s) 0 #
              (evs2 @ DrmModeAtomicFree # released s)"
        using success(3) by (simp add: events_since_def)
      moreover have "filter is_release evs1 = []"
        "filter is_release (evs2 @ DrmModeAtomicFree # released s) = released s"
        using success(1,2) by (simp_all add: no_key_events released_not_commit)
      ultimately show ?thesis by blast
    qed
  qed
  from first rest each show ?thesis by blast
qed

section \<open>The mode-set needs a completed show\<close>

text \<open>
  C10: in a session that starts without the mode-set flag, a kernel commit carries the
  flag only if \<^verbatim>\<open>show\<close> has run to completion before it with no accepted commit in
  between. In particular, when every \<^verbatim>\<open>show\<close> of the session returns early for missing
  fence extensions (or there is none), no commit carries the flag and the flag is still
  clear at the end. A call of \<^verbatim>\<open>swapBuffers\<close> never sets the flag, submits with exactly
  the drawable's flags, and without the flag the request consists of plane properties
  and the out-fence pointer only: no connector routing, mode or active property.
\<close>

theorem C10_modeset_only_after_show:
  assumes run: "run cs st = Some (Inr st')" and init: "\<not> has_modeset (flags st)"
  shows "modeset_only_armed False (events_since st st') \<and>
         ((\<forall>c \<in> set cs. \<forall>env. c = Show env \<longrightarrow>
              \<not> has_native_fence_sync env \<or> \<not> procs_available env) \<longrightarrow>
            no_modeset (events_since st st') \<and> \<not> has_modeset (flags st')) \<and>
         (\<forall>env s s'. swapBuffers env s = Some (Inr s') \<longrightarrow>
            (has_modeset (flags s') \<longrightarrow> has_modeset (flags s)) \<and>
            (\<forall>req fl rc. DrmModeAtomicCommit req fl rc \<in> set (events_since s s') \<longrightarrow>
               fl = flags s \<and> (\<not> has_modeset fl \<longrightarrow> (\<forall>x \<in> set req. plane_or_fence_item s x))))"
proof -
  from run_modeset_only_armed [OF run, of False] init
  have a: "modeset_only_armed False (events_since st st')"
    by (auto simp: events_since_def)
  have b: "(\<forall>c \<in> set cs. \<forall>env. c = Show env \<longrightarrow>
              \<not> has_native_fence_sync env \<or> \<not> procs_available env) \<longrightarrow>
            no_modeset (events_since st st') \<and> \<not> has_modeset (flags st')"
  proof
    assume "\<forall>c \<in> set cs. \<forall>env. c = Show env \<longrightarrow>
              \<not> has_native_fence_sync env \<or> \<not> procs_available env"
    from run_without_show [OF run init this]
    show "no_modeset (events_since st st') \<and> \<not> has_modeset (flags st')"
      by (auto simp: events_since_def)
  qed
  have c: "\<forall>env s s'. swapBuffers env s = Some (Inr s') \<longrightarrow>
            (has_modeset (flags s') \<longrightarrow> has_modeset (flags s)) \<and>
            (\<forall>req fl rc. DrmModeAtomicCommit req fl rc \<in> set (events_since s s') \<longrightarrow>
               fl = flags s \<and> (\<not> has_modeset fl \<longrightarrow> (\<forall>x \<in> set req. plane_or_fence_item s x)))"
  proof (intro allI impI)
    fix env s s' assume "swapBuffers env s = Some (Inr s')"
    then show "(has_modeset (flags s') \<longrightarrow> has_modeset (flags s)) \<and>
            (\<forall>req fl rc. DrmModeAtomicCommit req fl rc \<in> set (events_since s s') \<longrightarrow>
               fl = flags s \<and> (\<not> has_modeset fl \<longrightarrow> (\<forall>x \<in> set req. plane_or_fence_item s x)))"
    proof (cases rule: swapBuffers_cases)
      case (skipped evs msg)
      then show ?thesis by (simp add: events_since_def key_event_mem)
    next
      case (commit_failed req rc evs1 evs2)
      from commit_failed(9) have items:
        "\<not> has_modeset (flags s) \<longrightarrow> (\<forall>x \<in> set req. plane_or_fence_item s x)"
        by (simp add: has_modeset_def)
      have ev: "events_since s s' =
          evs1 @ DrmModeAtomicCommit req (flags s) rc # evs2 @ [Printf ''failed to commit'']"
        using commit_failed(4) by (simp add: events_since_def)
      from commit_failed(2,3,5) items show ?thesis
        by (auto simp add: ev key_event_mem)
    next
      case (success req evs1 evs2 nb)
      from success(9) have items:
        "\<not> has_modeset (flags s) \<longrightarrow> (\<forall>x \<in> set req. plane_or_fence_item s x)"
        by (simp add: has_modeset_def)
      have ev: "events_since s s' =
          evs1 @ DrmModeAtomicCommit req (flags s) 0 # evs2 @ DrmModeAtomicFree # released s"
        using success(3) by (simp add: events_since_def)
      have cl: "\<not> has_modeset (flags s')" using success(4) by (simp add: has_modeset_cleared)
      from success(1,2) items cl show ?thesis
        by (auto simp add: ev key_event_mem released_mem)
    qed
  qed
  from a b c show ?thesis by blast
qed

theorem C10_modeset_only_after_show_witness:
  "run [Show show_without_fence_sync, SwapBuffers frame_ok] session0 =
     Some (Inr (projr (the (run [Show show_without_fence_sync, SwapBuffers frame_ok] session0)))) \<and>
   \<not> has_modeset (flags session0) \<and>
   \<not> has_native_fence_sync show_without_fence_sync \<and>
   no_modeset (events_since session0
     (projr (the (run [Show show_without_fence_sync, SwapBuffers frame_ok] session0)))) \<and>
   \<not> has_modeset (flags (projr (the (run [Show show_without_fence_sync, SwapBuffers frame_ok] session0))))"
proof -
  have h1: "run [Show show_without_fence_sync, SwapBuffers frame_ok] session0 =
     Some (Inr (projr (the (run [Show show_without_fence_sync, SwapBuffers frame_ok] session0))))"
    by (rule returned) (simp add: run_defs)
  have h2: "\<not> has_modeset (flags session0)"
    by (simp add: session0_def constructed_def has_modeset_def DRM_MODE_ATOMIC_NONBLOCK_def
        DRM_MODE_ATOMIC_ALLOW_MODESET_def)
  have h3: "\<forall>c \<in> set [Show show_without_fence_sync, SwapBuffers frame_ok]. \<forall>env. c = Show env \<longrightarrow>
      \<not> has_native_fence_sync env \<or> \<not> procs_available env"
    by (simp add: show_without_fence_sync_def show_ok_def)
  from C10_modeset_only_after_show [OF h1 h2] h3
  have "no_modeset (events_since session0
     (projr (the (run [Show show_without_fence_sync, SwapBuffers frame_ok] session0)))) \<and>
   \<not> has_modeset (flags (projr (the (run [Show show_without_fence_sync, SwapBuffers frame_ok] session0))))"
    by blast
  moreover have "\<not> has_native_fence_sync show_without_fence_sync"
    by (simp add: show_without_fence_sync_def show_ok_def)
  ultimately show ?thesis using h1 h2 by blast
qed

section \<open>The lifetime of a presentation handle\<close>

lemma create_fb_step:
  assumes c: "create_fb k st b' = Inr (res, st1)" and ids: "nonzero_ids k"
  shows "\<exists>evs. trace st1 = trace st @ evs \<and> filter is_rmfb evs = [] \<and>
           filter (is_set_user_data b) evs =
             (case res of None \<Rightarrow> [] | Some f \<Rightarrow> if b' = b then [GbmBoSetUserData b f] else [])"
    and "next_fb st \<le> next_fb st1"
    and "\<forall>g < next_fb st. fb_mem st1 g = fb_mem st g"
    and "b' \<noteq> b \<longrightarrow> bo_mem st1 b = bo_mem st b"
    and "res = None \<longrightarrow> bo_mem st1 = bo_mem st \<and> created_id k = None"
    and "\<forall>f. res = Some f \<longrightarrow>
           user_data (bo_mem st1 b') = Some f \<and>
           destroy_user_data (bo_mem st1 b') = Some Drm_fb_destroy_callback \<and>
           f < next_fb st1 \<and>
           (\<exists>i. created_id k = Some i \<and> i \<noteq> 0 \<and> fb_mem st1 f = Some \<lparr>fb_bo = b', fb_id = i\<rparr>)"
proof -
  obtain hs ss os ms where pa: "plane_arrays (bo_mem st b') = (hs, ss, os, ms)"
    using prod_cases4 by blast
  obtain r1 i1 where k1: "addfb2_with_modifiers k = (r1, i1)" by (cases "addfb2_with_modifiers k")
  obtain r2 i2 where k2: "addfb2 k = (r2, i2)" by (cases "addfb2 k")
  from ids k1 k2 have nz: "r1 = 0 \<longrightarrow> i1 \<noteq> 0" "r2 = 0 \<longrightarrow> i2 \<noteq> 0"
    by (simp_all add: nonzero_ids_def)
  have cid: "created_id k = (if r1 = 0 then Some i1 else if r2 = 0 then Some i2 else None)"
    by (simp add: created_id_def k1 k2)
  let ?A = "\<exists>evs. trace st1 = trace st @ evs \<and> filter is_rmfb evs = [] \<and>
           filter (is_set_user_data b) evs =
             (case res of None \<Rightarrow> [] | Some f \<Rightarrow> if b' = b then [GbmBoSetUserData b f] else [])"
  let ?F = "\<forall>f. res = Some f \<longrightarrow>
           user_data (bo_mem st1 b') = Some f \<and>
           destroy_user_data (bo_mem st1 b') = Some Drm_fb_destroy_callback \<and>
           f < next_fb st1 \<and>
           (\<exists>i. created_id k = Some i \<and> i \<noteq> 0 \<and> fb_mem st1 f = Some \<lparr>fb_bo = b', fb_id = i\<rparr>)"
  have "?A \<and> next_fb st \<le> next_fb st1 \<and> (\<forall>g < next_fb st. fb_mem st1 g = fb_mem st g) \<and>
        (b' \<noteq> b \<longrightarrow> bo_mem st1 b = bo_mem st b) \<and>
        (res = None \<longrightarrow> bo_mem st1 = bo_mem st \<and> created_id k = None) \<and> ?F"
  proof (cases "r1 = 0")
    case True
    with c nz show ?thesis
      by (auto simp add: fb_defs pa k1 k2 cid split: if_splits)
  next
    case False
    with c nz show ?thesis
      by (auto simp add: fb_defs pa k1 k2 cid split: if_splits)
  qed
  then show ?A and "next_fb st \<le> next_fb st1" and "\<forall>g < next_fb st. fb_mem st1 g = fb_mem st g"
    and "b' \<noteq> b \<longrightarrow> bo_mem st1 b = bo_mem st b"
    and "res = None \<longrightarrow> bo_mem st1 = bo_mem st \<and> created_id k = None" and ?F
    by blast+
qed

lemma resolve_step:
  assumes g: "drm_fb_get_from_bo k st b' = Inr (res, st1)" and ids: "nonzero_ids k"
    and h: "handle_state b st regs kid"
  shows "\<exists>evs. trace st1 = trace st @ evs \<and> filter is_rmfb evs = [] \<and>
           handle_state b st1 (regs @ filter (is_set_user_data b) evs)
             (case kid of Some i \<Rightarrow> Some i
              | None \<Rightarrow> first_created b [(b', k)])"
proof (cases "user_data (bo_mem st b')")
  case (Some f)
  with g have "st1 = st" by (simp add: drm_fb_get_from_bo_def)
  moreover from h Some have "(case kid of Some i \<Rightarrow> Some i | None \<Rightarrow> first_created b [(b', k)]) = kid"
    by (auto simp: handle_state_def)
  ultimately show ?thesis using h by simp
next
  case None
  with g have c: "create_fb k st b' = Inr (res, st1)" by (simp add: drm_fb_get_from_bo_def)
  note s1 = create_fb_step(1) [OF c ids, of b] and s4 = create_fb_step(4) [OF c ids, of b]
    and s = create_fb_step(2,3,5,6) [OF c ids]
  from s1 obtain evs where e: "trace st1 = trace st @ evs" "filter is_rmfb evs = []"
    "filter (is_set_user_data b) evs =
       (case res of None \<Rightarrow> [] | Some f \<Rightarrow> if b' = b then [GbmBoSetUserData b f] else [])"
    by blast
  have "handle_state b st1 (regs @ filter (is_set_user_data b) evs)
          (case kid of Some i \<Rightarrow> Some i | None \<Rightarrow> first_created b [(b', k)])"
  proof (cases "b' = b \<and> res \<noteq> None")
    case True
    then obtain f where f: "res = Some f" and bb: "b' = b" by auto
    from h None bb have "regs = []" "kid = None" by (auto simp: handle_state_def)
    with s(4) f bb e(3) show ?thesis by (auto simp: handle_state_def)
  next
    case False
    then have same: "bo_mem st1 b = bo_mem st b" using s4 s(3) by auto
    from False e(3) have r: "filter (is_set_user_data b) evs = []" by (auto split: option.splits)
    from False s(3) have "b' = b \<longrightarrow> created_id k = None" by auto
    then have k: "(case kid of Some i \<Rightarrow> Some i | None \<Rightarrow> first_created b [(b', k)]) = kid"
      by (auto split: option.splits)
    from h same s(1,2) show ?thesis
      unfolding handle_state_def r k by (auto simp: less_le_trans)
  qed
  with e show ?thesis by blast
qed

lemma resolve_all_inv:
  assumes "resolve_all rs st = Inr st'" and "handle_state b st regs kid"
    and "\<forall>r \<in> set rs. nonzero_ids (snd r)"
  shows "\<exists>evs. trace st' = trace st @ evs \<and> filter is_rmfb evs = [] \<and>
           handle_state b st' (regs @ filter (is_set_user_data b) evs)
             (case kid of Some i \<Rightarrow> Some i | None \<Rightarrow> first_created b rs)"
  using assms
proof (induction rs arbitrary: st regs kid)
  case Nil
  then show ?case by (cases kid) simp_all
next
  case (Cons r rs)
  obtain b' k where r: "r = (b', k)" by (cases r)
  with Cons.prems(1) obtain res s1 where g: "drm_fb_get_from_bo k st b' = Inr (res, s1)"
    and rest: "resolve_all rs s1 = Inr st'"
    by (auto split: sum.splits)
  from Cons.prems(3) r have ids: "nonzero_ids k" and ids': "\<forall>r \<in> set rs. nonzero_ids (snd r)"
    by simp_all
  let ?kid1 = "case kid of Some i \<Rightarrow> Some i | None \<Rightarrow> first_created b [(b', k)]"
  from resolve_step [OF g ids Cons.prems(2)] obtain e1 where e1: "trace s1 = trace st @ e1"
    "filter is_rmfb e1 = []" "handle_state b s1 (regs @ filter (is_set_user_data b) e1) ?kid1"
    by blast
  from Cons.IH [OF rest e1(3) ids'] obtain e2 where e2: "trace st' = trace s1 @ e2"
    "filter is_rmfb e2 = []"
    "handle_state b st' ((regs @ filter (is_set_user_data b) e1) @ filter (is_set_user_data b) e2)
       (case ?kid1 of Some i \<Rightarrow> Some i | None \<Rightarrow> first_created b rs)"
    by blast
  have kid: "(case ?kid1 of Some i \<Rightarrow> Some i | None \<Rightarrow> first_created b rs) =
             (case kid of Some i \<Rightarrow> Some i | None \<Rightarrow> first_created b (r # rs))"
    by (simp add: r split: option.splits)
  have "trace st' = trace st @ (e1 @ e2)" using e1(1) e2(1) by simp
  moreover have "filter is_rmfb (e1 @ e2) = []" using e1(2) e2(2) by simp
  moreover have "handle_state b st' (regs @ filter (is_set_user_data b) (e1 @ e2))
                   (case kid of Some i \<Rightarrow> Some i | None \<Rightarrow> first_created b (r # rs))"
    using e2(3) unfolding kid by simp
  ultimately show ?case by blast
qed

text \<open>
  C6: take a buffer \<open>b\<close> without handle or hook, resolve any sequence of buffers against
  a kernel that never returns id 0, and let \<open>b\<close> hold the handle \<open>f\<close> at the end. Then the
  destructor hook was registered on \<open>b\<close> exactly once, for \<open>f\<close>; no framebuffer was
  removed while resolving; the record of \<open>f\<close> holds the id \<open>i\<close> that the kernel handed out
  when the framebuffer of \<open>b\<close> was created; destroying \<open>b\<close> removes the kernel framebuffer
  \<open>i\<close> once and frees the record once, after which the buffer carries neither handle nor
  hook. No call of \<^verbatim>\<open>swapBuffers\<close> removes a framebuffer.
\<close>

theorem C6_handle_torn_down_once:
  assumes fresh: "user_data (bo_mem st b) = None" "destroy_user_data (bo_mem st b) = None"
    and resolved: "resolve_all rs st = Inr st1"
    and ids: "\<forall>r \<in> set rs. nonzero_ids (snd r)"
    and acquired: "user_data (bo_mem st1 b) = Some f"
  shows "filter (is_set_user_data b) (events_since st st1) = [GbmBoSetUserData b f] \<and>
         filter is_rmfb (events_since st st1) = [] \<and>
         (\<exists>i st2. first_created b rs = Some i \<and> i \<noteq> 0 \<and>
            fb_mem st1 f = Some \<lparr>fb_bo = b, fb_id = i\<rparr> \<and>
            gbm_bo_destroy st1 b = Inr st2 \<and>
            events_since st1 st2 = [DrmModeRmFB i, Free f, GbmBoDestroy b] \<and>
            fb_mem st2 f = None \<and> user_data (bo_mem st2 b) = None \<and>
            destroy_user_data (bo_mem st2 b) = None) \<and>
         (\<forall>env s s'. swapBuffers env s = Some (Inr s') \<longrightarrow>
            filter is_rmfb (events_since s s') = [])"
proof -
  from fresh have h: "handle_state b st [] None" by (simp add: handle_state_def)
  from resolve_all_inv [OF resolved h ids] obtain evs where e: "trace st1 = trace st @ evs"
    "filter is_rmfb evs = []"
    "handle_state b st1 (filter (is_set_user_data b) evs) (first_created b rs)" by auto
  have es: "events_since st st1 = evs" using e(1) by (simp add: events_since_def)
  from e(3) acquired obtain i where i: "filter (is_set_user_data b) evs = [GbmBoSetUserData b f]"
    "destroy_user_data (bo_mem st1 b) = Some Drm_fb_destroy_callback" "i \<noteq> 0"
    "fb_mem st1 f = Some \<lparr>fb_bo = b, fb_id = i\<rparr>" "first_created b rs = Some i"
    by (auto simp: handle_state_def)
  let ?st2 = "projr (gbm_bo_destroy st1 b)"
  have d: "gbm_bo_destroy st1 b = Inr ?st2 \<and>
            events_since st1 ?st2 = [DrmModeRmFB i, Free f, GbmBoDestroy b] \<and>
            fb_mem ?st2 f = None \<and> user_data (bo_mem ?st2 b) = None \<and>
            destroy_user_data (bo_mem ?st2 b) = None"
    using acquired i
    by (simp add: gbm_bo_destroy_def drm_fb_destroy_callback_def emit_def events_since_def Let_def)
  have sw: "\<forall>env s s'. swapBuffers env s = Some (Inr s') \<longrightarrow>
            filter is_rmfb (events_since s s') = []"
  proof (intro allI impI)
    fix env s s' assume "swapBuffers env s = Some (Inr s')"
    then show "filter is_rmfb (events_since s s') = []"
    proof (cases rule: swapBuffers_cases)
      case (skipped evs msg)
      then show ?thesis by (simp add: events_since_def no_key_events)
    next
      case (commit_failed req rc evs1 evs2)
      then show ?thesis by (simp add: events_since_def no_key_events)
    next
      case (success req evs1 evs2 nb)
      then show ?thesis by (simp add: events_since_def no_key_events released_not_commit)
    qed
  qed
  from es e(2) i d sw show ?thesis by blast
qed

theorem C6_handle_torn_down_once_witness:
  "user_data (bo_mem session0 3) = None \<and> destroy_user_data (bo_mem session0 3) = None \<and>
   resolve_all [(3, kernel_rejects_all), (4, kernel_accepts),
                (3, kernel_rejects_modifiers\<lparr>addfb2 := (0, 80)\<rparr>), (3, kernel_accepts)] session0 =
     Inr (projr (resolve_all [(3, kernel_rejects_all), (4, kernel_accepts),
                (3, kernel_rejects_modifiers\<lparr>addfb2 := (0, 80)\<rparr>), (3, kernel_accepts)] session0)) \<and>
   nonzero_ids kernel_rejects_all \<and> nonzero_ids kernel_accepts \<and>
   nonzero_ids (kernel_rejects_modifiers\<lparr>addfb2 := (0, 80)\<rparr>) \<and>
   user_data (bo_mem (projr (resolve_all [(3, kernel_rejects_all), (4, kernel_accepts),
                (3, kernel_rejects_modifiers\<lparr>addfb2 := (0, 80)\<rparr>), (3, kernel_accepts)] session0)) 3)
     = Some 3 \<and>
   filter (is_set_user_data 3)
     (events_since session0 (projr (resolve_all [(3, kernel_rejects_all), (4, kernel_accepts),
                (3, kernel_rejects_modifiers\<lparr>addfb2 := (0, 80)\<rparr>), (3, kernel_accepts)] session0)))
     = [GbmBoSetUserData 3 3] \<and>
   first_created 3 [(3, kernel_rejects_all), (4, kernel_accepts),
                (3, kernel_rejects_modifiers\<lparr>addfb2 := (0, 80)\<rparr>), (3, kernel_accepts)] = Some 80 \<and>
   (\<exists>st2. gbm_bo_destroy (projr (resolve_all [(3, kernel_rejects_all), (4, kernel_accepts),
                (3, kernel_rejects_modifiers\<lparr>addfb2 := (0, 80)\<rparr>), (3, kernel_accepts)] session0)) 3
            = Inr st2 \<and>
          events_since (projr (resolve_all [(3, kernel_rejects_all), (4, kernel_accepts),
                (3, kernel_rejects_modifiers\<lparr>addfb2 := (0, 80)\<rparr>), (3, kernel_accepts)] session0)) st2
            = [DrmModeRmFB 80, Free 3, GbmBoDestroy 3])"
proof -
  let ?rs = "[(3 :: bo_ref, kernel_rejects_all), (4, kernel_accepts),
              (3, kernel_rejects_modifiers\<lparr>addfb2 := (0, 80)\<rparr>), (3, kernel_accepts)]"
  have h1: "user_data (bo_mem session0 3) = None" "destroy_user_data (bo_mem session0 3) = None"
    by (simp_all add: session0_def constructed_def tiled_bo_def)
  have h2: "resolve_all ?rs session0 = Inr (projr (resolve_all ?rs session0))"
    by (simp add: fb_defs plane_arrays_def DRM_MODE_FB_MODIFIERS_def session0_def constructed_def
        tiled_bo_def kernel_rejects_modifiers_def kernel_rejects_all_def kernel_accepts_def)
  have n: "nonzero_ids kernel_rejects_all" "nonzero_ids kernel_accepts"
    "nonzero_ids (kernel_rejects_modifiers\<lparr>addfb2 := (0, 80)\<rparr>)"
    by (simp_all add: nonzero_ids_def kernel_rejects_modifiers_def kernel_rejects_all_def
        kernel_accepts_def)
  then have h3: "\<forall>r \<in> set ?rs. nonzero_ids (snd r)" by simp
  have h4: "user_data (bo_mem (projr (resolve_all ?rs session0)) 3) = Some 3"
    by (simp add: fb_defs plane_arrays_def DRM_MODE_FB_MODIFIERS_def session0_def constructed_def
        tiled_bo_def kernel_rejects_modifiers_def kernel_rejects_all_def kernel_accepts_def)
  have fc: "first_created 3 ?rs = Some 80"
    by (simp add: created_id_def kernel_rejects_modifiers_def kernel_rejects_all_def
        kernel_accepts_def)
  from C6_handle_torn_down_once [OF h1 h2 h3 h4] fc
  have "filter (is_set_user_data 3) (events_since session0 (projr (resolve_all ?rs session0)))
          = [GbmBoSetUserData 3 3] \<and>
        (\<exists>st2. gbm_bo_destroy (projr (resolve_all ?rs session0)) 3 = Inr st2 \<and>
               events_since (projr (resolve_all ?rs session0)) st2
                 = [DrmModeRmFB 80, Free 3, GbmBoDestroy 3])"
    by auto
  with h1 h2 n h4 fc show ?thesis by blast
qed

section \<open>Where the code departs from the specification\<close>

text \<open>
  C1 at a failing input: three frames, of which the first and the third succeed and the
  second finds no front buffer to lock. The first commit returns the completion fence
  fd 10. The second call imports it (and queues the GPU-side wait), then returns at the
  failed lock, before the CPU-side wait. The third call finds no fence fd and submits its
  commit: between the two accepted commits there is no \<^verbatim>\<open>eglClientWaitSyncKHR\<close> at all.
\<close>

theorem C1_skipped_frame_loses_the_wait:
  "kms_out_fence_fd (projr (the (run [SwapBuffers frame_ok] session0))) = 10 \<and>
   filter display_fence_event
     (trace (projr (the (run [SwapBuffers frame_ok, SwapBuffers frame_lock_fails,
                              SwapBuffers frame_next_ok] session0)))) =
     [DrmModeAtomicCommit
        [(31, 16, 77), (31, 19, 41), (31, 12, 0), (31, 13, 0), (31, 14, 125829120),
         (31, 15, 70778880), (31, 8, 0), (31, 9, 0), (31, 10, 1920), (31, 11, 1080),
         (41, 23, 4096), (31, 17, 9)] 512 0,
      EglCreateSync 10 11,
      EglWaitSync 11,
      DrmModeAtomicCommit
        [(31, 16, 77), (31, 19, 41), (31, 12, 0), (31, 13, 0), (31, 14, 125829120),
         (31, 15, 70778880), (31, 8, 0), (31, 9, 0), (31, 10, 1920), (31, 11, 1080),
         (41, 23, 4096), (31, 17, 9)] 512 0]"
  by (simp add: run_defs)

text \<open>
  C8 at a failing input: a frame whose commit the kernel refuses, followed by a frame
  that succeeds. The refused request carried \<^verbatim>\<open>IN_FENCE_FD = 9\<close>; at the return of the
  first call the stored \<^verbatim>\<open>kms_in_fence_fd\<close> is still 9 and nothing has been closed. The
  second call overwrites the stored fd with its own export, 13, and over both calls the
  only fd ever closed is 13: fd 9 stays open. In the sibling path, a first frame whose
  commit is accepted, the fd is closed once and the stored copy is \<open>-1\<close>.
\<close>

theorem C8_refused_commit_keeps_fence_fd:
  "DrmModeAtomicCommit
     [(31, 16, 77), (31, 19, 41), (31, 12, 0), (31, 13, 0), (31, 14, 125829120),
      (31, 15, 70778880), (31, 8, 0), (31, 9, 0), (31, 10, 1920), (31, 11, 1080),
      (41, 23, 4096), (31, 17, 9)] 512 (- 16)
     \<in> set (trace (projr (the (swapBuffers frame_commit_fails session0)))) \<and>
   kms_in_fence_fd (projr (the (swapBuffers frame_commit_fails session0))) = 9 \<and>
   filter is_close (trace (projr (the (swapBuffers frame_commit_fails session0)))) = [] \<and>
   filter is_close
     (trace (projr (the (run [SwapBuffers frame_commit_fails,
                              SwapBuffers (frame_next_ok\<lparr>dup_fd := 13\<rparr>)] session0)))) = [Close 13] \<and>
   kms_in_fence_fd (projr (the (run [SwapBuffers frame_commit_fails,
                                     SwapBuffers (frame_next_ok\<lparr>dup_fd := 13\<rparr>)] session0))) = - 1 \<and>
   filter is_close (trace (projr (the (swapBuffers frame_ok session0)))) = [Close 9] \<and>
   kms_in_fence_fd (projr (the (swapBuffers frame_ok session0))) = - 1"
  by (simp add: run_defs)

text \<open>
  C9 at a failing input: a drawable whose member \<^verbatim>\<open>bo\<close>, which has no initialiser, holds
  some non-NULL value \<open>b0\<close> at construction, in its first call of \<^verbatim>\<open>swapBuffers\<close>, which
  succeeds. The call locks buffer 3, commits, and then releases \<open>b0\<close> to the surface: a
  buffer that was never displayed.
\<close>

theorem C9_first_frame_releases_indeterminate_buffer:
  "trace (projr (the (swapBuffers frame_ok (constructed (Some b0) None)))) =
     [EglCreateSync (- 1) 12, EglSwapBuffers, EglDupNativeFenceFD 12 9, EglDestroySync 12,
      GbmSurfaceLockFrontBuffer (Some 3), Calloc 1, Printf ''Using modifier'',
      DrmModeAddFB2WithModifiers 1920 1080 875713112 [5, 0, 0, 0] [7680, 0, 0, 0] [0, 0, 0, 0]
        [72057594037927937, 0, 0, 0] 2 0,
      GbmBoSetUserData 3 1, Poll 0, DrmModeAtomicAlloc,
      DrmModeAtomicCommit
        [(31, 16, 77), (31, 19, 41), (31, 12, 0), (31, 13, 0), (31, 14, 125829120),
         (31, 15, 70778880), (31, 8, 0), (31, 9, 0), (31, 10, 1920), (31, 11, 1080),
         (41, 23, 4096), (31, 17, 9)] 512 0,
      Close 9, DrmModeAtomicFree, GbmSurfaceReleaseBuffer b0] \<and>
   bo (projr (the (swapBuffers frame_ok (constructed (Some b0) None)))) = Some 3"
  by (simp add: run_defs)

text \<open>
  A connector without \<^verbatim>\<open>CRTC_ID\<close>: the scan leaves \<^verbatim>\<open>prop_id\<close> at 0, the function's own
  test does not fire, \<^verbatim>\<open>drmModeAtomicAddProperty\<close> refuses property id 0, and the mode-set
  block returns \<open>-1\<close> before anything is submitted.
\<close>

lemma connector_lookup_miss_is_refused:
  "drm_atomic_commit frame_ok 77 (DRM_MODE_ATOMIC_NONBLOCK OR DRM_MODE_ATOMIC_ALLOW_MODESET)
     (session0\<lparr>connector_props := [(''DPMS'', 2)]\<rparr>) =
   (- 1, session0\<lparr>connector_props := [(''DPMS'', 2)], trace := [DrmModeAtomicAlloc]\<rparr>)"
  by (simp add: run_defs)

text \<open>
  C3 at a failing input: a plane that does not expose \<^verbatim>\<open>IN_FENCE_FD\<close> and a crtc that does
  not expose \<^verbatim>\<open>OUT_FENCE_PTR\<close>. Both lookup misses are logged, the return values of
  \<^verbatim>\<open>add_crtc_property\<close> and \<^verbatim>\<open>add_plane_property\<close> are dropped, and the request is
  submitted without the two properties; the kernel accepts it and the call returns 0.
\<close>

theorem C3_missing_property_is_still_committed:
  "drm_atomic_commit frame_ok 77 512 session_without_fence_props =
     (0, session_without_fence_props
           \<lparr>kms_in_fence_fd := - 1,
            trace := [DrmModeAtomicAlloc, Printf ''no crtc property: OUT_FENCE_PTR'',
                      Printf ''no plane property: IN_FENCE_FD'',
                      DrmModeAtomicCommit
                        [(31, 16, 77), (31, 19, 41), (31, 12, 0), (31, 13, 0),
                         (31, 14, 125829120), (31, 15, 70778880), (31, 8, 0), (31, 9, 0),
                         (31, 10, 1920), (31, 11, 1080)] 512 0,
                      Close 9, DrmModeAtomicFree]\<rparr>)"
  by (simp add: run_defs session_without_fence_props_def)

end
